theory Spec2Isabelle
  imports Main "HOL-Library.Word"
begin

section \<open>JavaScript strings\<close>

text \<open>
  A JavaScript string is a sequence of UTF-16 code units. The regular expressions of
  \<open>work-items.ts\<close> carry no \<open>u\<close> flag and \<open>trim\<close>, \<open>split\<close> and \<open>join\<close> work on code
  units, so a string is modelled as a list of 16-bit words. \<open>asc\<close> turns an ASCII literal
  into such a list; text outside ASCII is written as the list of its code units.
\<close>

type_synonym jstring = "16 word list"

definition asc :: "string \<Rightarrow> jstring" where
  "asc s = map of_char s"

text \<open>
  The characters that \<open>String.prototype.trim\<close> removes and that \<open>\s\<close> matches: ECMAScript's
  WhiteSpace and LineTerminator code points.
\<close>

definition is_ws :: "16 word \<Rightarrow> bool" where
  "is_ws c = (c = 0x09 \<or> c = 0x0A \<or> c = 0x0B \<or> c = 0x0C \<or> c = 0x0D \<or> c = 0x20
     \<or> c = 0xA0 \<or> c = 0x1680 \<or> (0x2000 \<le> c \<and> c \<le> 0x200A) \<or> c = 0x2028 \<or> c = 0x2029
     \<or> c = 0x202F \<or> c = 0x205F \<or> c = 0x3000 \<or> c = 0xFEFF)"

definition trim :: "jstring \<Rightarrow> jstring" where
  "trim s = rev (dropWhile is_ws (rev (dropWhile is_ws s)))"

text \<open>\<open>join sep xs\<close> is \<open>xs.join(sep)\<close> on an array of strings.\<close>

fun join :: "jstring \<Rightarrow> jstring list \<Rightarrow> jstring" where
  "join sep [] = []"
| "join sep [x] = x"
| "join sep (x # y # ys) = x @ sep @ join sep (y # ys)"

text \<open>
  \<open>split c s\<close> is \<open>s.split(c)\<close> for a separator of one code unit; the empty string splits
  into one empty piece.
\<close>

fun split :: "16 word \<Rightarrow> jstring \<Rightarrow> jstring list" where
  "split c [] = [[]]"
| "split c (x # xs) =
     (if x = c then [] # split c xs
      else (case split c xs of h # t \<Rightarrow> (x # h) # t | [] \<Rightarrow> [[x]]))"

definition nl :: "16 word" where
  "nl = 0x0A"

text \<open>Decimal digits of a natural number and of an integer, as \<open>String(n)\<close> prints them.\<close>

function digits :: "nat \<Rightarrow> jstring" where
  "digits n = (if n < 10 then [of_nat (48 + n)] else digits (n div 10) @ [of_nat (48 + n mod 10)])"
  by pat_completeness auto
termination
  by (relation "measure id") auto

definition show_int :: "int \<Rightarrow> jstring" where
  "show_int i = (if i < 0 then asc ''-'' @ digits (nat (- i)) else digits (nat i))"

section \<open>JavaScript values\<close>

text \<open>
  The tracker's payload is parsed JSON, typed \<open>any\<close> in the source. \<open>jv\<close> holds the values
  such a payload is made of. Numbers are the integers of magnitude below \<open>2^53\<close> (codes
  and epoch timestamps), which a double holds exactly and prints in decimal; fractions,
  \<open>NaN\<close> and the numbers that JavaScript prints with an exponent (from \<open>10^21\<close>) are outside
  the model. An object is the list of its own properties, read from the front.
  \<open>JNative n\<close> is the built-in function object named \<open>n\<close>: no payload holds one, but a
  lookup in a plain object can return one, because a plain object inherits the members
  of \<open>Object.prototype\<close>.
\<close>

datatype jv =
    JUndef
  | JNull
  | JBool bool
  | JNum int
  | JStr jstring
  | JArr "jv list"
  | JObj "(jstring \<times> jv) list"
  | JNative jstring

text \<open>
  The exceptions of the program: a TypeError where a property of \<open>null\<close> or \<open>undefined\<close> is
  read or a value that is no function is called, and the RangeError of a call stack that
  is full.
\<close>

datatype error = TypeError | RangeError

definition bindE :: "error + 'a \<Rightarrow> ('a \<Rightarrow> error + 'b) \<Rightarrow> error + 'b" where
  "bindE m f = (case m of Inl e \<Rightarrow> Inl e | Inr x \<Rightarrow> f x)"

text \<open>\<open>mapE f xs\<close> is \<open>xs.map(f)\<close> where \<open>f\<close> may throw: the first throw ends the loop.\<close>

fun mapE :: "('a \<Rightarrow> error + 'b) \<Rightarrow> 'a list \<Rightarrow> error + 'b list" where
  "mapE f [] = Inr []"
| "mapE f (x # xs) = bindE (f x) (\<lambda>y. bindE (mapE f xs) (\<lambda>ys. Inr (y # ys)))"

lemma bindE_cong [fundef_cong]:
  "m = m' \<Longrightarrow> (\<And>x. m' = Inr x \<Longrightarrow> f x = g x) \<Longrightarrow> bindE m f = bindE m' g"
  by (cases m') (simp_all add: bindE_def)

lemma mapE_cong [fundef_cong]:
  "xs = ys \<Longrightarrow> (\<And>x. x \<in> set ys \<Longrightarrow> f x = g x) \<Longrightarrow> mapE f xs = mapE g ys"
  by (induction ys arbitrary: xs) (auto simp: bindE_def)

lemma bindE_simps [simp]:
  "bindE (Inl e) f = Inl e"
  "bindE (Inr x) f = f x"
  by (simp_all add: bindE_def)

fun truthy :: "jv \<Rightarrow> bool" where
  "truthy JUndef = False"
| "truthy JNull = False"
| "truthy (JBool b) = b"
| "truthy (JNum n) = (n \<noteq> 0)"
| "truthy (JStr s) = (s \<noteq> [])"
| "truthy (JArr xs) = True"
| "truthy (JObj kvs) = True"
| "truthy (JNative n) = True"

fun nullish :: "jv \<Rightarrow> bool" where
  "nullish JUndef = True"
| "nullish JNull = True"
| "nullish v = False"

text \<open>\<open>or_js a b\<close> is \<open>a || b\<close>.\<close>

definition or_js :: "jv \<Rightarrow> jv \<Rightarrow> jv" where
  "or_js a b = (if truthy a then a else b)"

text \<open>
  The members every plain object inherits from \<open>Object.prototype\<close>. Each is a built-in
  function, except the accessor \<open>__proto__\<close>, which yields \<open>Object.prototype\<close> itself: an
  object that, for every operation of this program, behaves as an empty object does.
\<close>

definition object_prototype_functions :: "jstring list" where
  "object_prototype_functions =
     [asc ''constructor'', asc ''__defineGetter__'', asc ''__defineSetter__'',
      asc ''hasOwnProperty'', asc ''__lookupGetter__'', asc ''__lookupSetter__'',
      asc ''isPrototypeOf'', asc ''propertyIsEnumerable'', asc ''toString'',
      asc ''valueOf'', asc ''toLocaleString'']"

definition inherited :: "jstring \<Rightarrow> jv" where
  "inherited k =
     (if k = asc ''__proto__'' then JObj []
      else if k = asc ''constructor'' then JNative (asc ''Object'')
      else if k \<in> set object_prototype_functions then JNative k
      else JUndef)"

text \<open>
  \<open>field v k\<close> is \<open>v.k\<close> (or \<open>v[k]\<close>) for a value \<open>v\<close> that is neither \<open>null\<close> nor
  \<open>undefined\<close>; the caller raises the TypeError of those two. On a string, number,
  boolean or array the program reads only names that their prototypes do not define
  (\<open>type\<close>, \<open>text\<close>, \<open>children\<close>, \<open>url\<close>, \<open>name\<close>, ...), so the result there is \<open>undefined\<close>.
\<close>

definition field :: "jv \<Rightarrow> jstring \<Rightarrow> jv" where
  "field v k =
     (case v of
        JObj kvs \<Rightarrow> (case map_of kvs k of Some x \<Rightarrow> x | None \<Rightarrow> inherited k)
      | _ \<Rightarrow> JUndef)"

text \<open>\<open>opt_field v k\<close> is \<open>v?.k\<close>.\<close>

definition opt_field :: "jv \<Rightarrow> jstring \<Rightarrow> jv" where
  "opt_field v k = (if nullish v then JUndef else field v k)"

text \<open>
  \<open>toStr v\<close> is the abstract operation ToString, which template literals, \<open>join\<close> and
  computed property keys apply. An array prints its elements joined by commas, \<open>null\<close>
  and \<open>undefined\<close> elements as nothing. An object prints as \<open>[object Object]\<close> through the
  inherited \<open>toString\<close>; a parsed object with an own property \<open>toString\<close> has hidden the
  inherited function behind a value that cannot be called, and the conversion throws.
  A built-in function prints as V8 prints it.
\<close>

fun toStr :: "jv \<Rightarrow> error + jstring" where
  "toStr JUndef = Inr (asc ''undefined'')"
| "toStr JNull = Inr (asc ''null'')"
| "toStr (JBool b) = Inr (if b then asc ''true'' else asc ''false'')"
| "toStr (JNum n) = Inr (show_int n)"
| "toStr (JStr s) = Inr s"
| "toStr (JArr xs) =
     bindE (mapE (\<lambda>x. if nullish x then Inr [] else toStr x) xs) (\<lambda>ss. Inr (join (asc '','') ss))"
| "toStr (JObj kvs) =
     (if map_of kvs (asc ''toString'') \<noteq> None then Inl TypeError
      else Inr (asc ''[object Object]''))"
| "toStr (JNative n) = Inr (asc ''function '' @ n @ asc ''() { [native code] }'')"

text \<open>A template literal: the parts converted by ToString and concatenated.\<close>

definition template :: "jv list \<Rightarrow> error + jv" where
  "template parts = bindE (mapE toStr parts) (\<lambda>ss. Inr (JStr (concat ss)))"

text \<open>\<open>join_js sep xs\<close> is \<open>xs.join(sep)\<close> on an array of any values.\<close>

definition join_js :: "jstring \<Rightarrow> jv list \<Rightarrow> error + jstring" where
  "join_js sep xs =
     bindE (mapE (\<lambda>x. if nullish x then Inr [] else toStr x) xs) (\<lambda>ss. Inr (join sep ss))"

definition joined :: "jstring \<Rightarrow> jv list \<Rightarrow> error + jv" where
  "joined sep xs = bindE (join_js sep xs) (\<lambda>s. Inr (JStr s))"

section \<open>The rich-text renderer\<close>

text \<open>
  The renderer is given twice. \<open>parseInlineElement\<close> and \<open>parseBlockElement\<close> are the two
  functions of the source on a call stack that holds: what they return, and the TypeError
  they raise. \<open>parseInlineElement_on\<close> and \<open>parseBlockElement_on\<close>, after them, have the same
  bodies and the call stack as well; they are what \<open>parseCommentContent\<close>, and through it
  \<open>formatWorkItem\<close>, runs.
\<close>

text \<open>The two literals of the renderer outside ASCII: the image marker and the default mention.\<close>

definition image_open :: jstring where
  "image_open = [0x5B, 0x56FE, 0x7247, 0x5D, 0x28]"

definition default_user :: jstring where
  "default_user = [0x7528, 0x6237]"

lemma size_field_children:
  "field v k = JArr cs \<Longrightarrow> c \<in> set cs \<Longrightarrow> size c < size v"
proof (cases v)
  case (JObj kvs)
  assume f: "field v k = JArr cs" and c: "c \<in> set cs"
  have m: "map_of kvs k = Some (JArr cs)"
    using f JObj by (auto simp: field_def inherited_def split: option.splits if_splits)
  have "(k, JArr cs) \<in> set kvs"
    using m by (rule map_of_SomeD)
  then have "size (JArr cs) \<le> size_list (size_prod (\<lambda>_. 0) size) kvs"
    by (induction kvs) auto
  moreover have "size c < size (JArr cs)"
    using c by (induction cs) auto
  ultimately show ?thesis
    using JObj by simp
qed (simp_all add: field_def)

function parseInlineElement :: "jv \<Rightarrow> error + jv" where
  "parseInlineElement child =
     (if nullish child then Inl TypeError
      else if \<not> truthy (field child (asc ''type'')) then
        Inr (or_js (field child (asc ''text'')) (JStr []))
      else if field child (asc ''type'') = JStr (asc ''link'') then
        bindE (case field child (asc ''children'') of
                 JUndef \<Rightarrow> Inr JUndef
               | JNull \<Rightarrow> Inr JUndef
               | JArr cs \<Rightarrow>
                   bindE (mapE (\<lambda>c. if nullish c then Inl TypeError
                                    else Inr (or_js (field c (asc ''text'')) (JStr []))) cs)
                     (joined [])
               | _ \<Rightarrow> Inl TypeError)
          (\<lambda>linkText. template [JStr (asc ''[''), or_js linkText (field child (asc ''url'')),
                                 JStr (asc ''](''), field child (asc ''url''), JStr (asc '')'')])
      else if field child (asc ''type'') = JStr (asc ''mention'') then
        template [JStr (asc ''@''),
                  or_js (field child (asc ''display_name''))
                    (or_js (field child (asc ''text'')) (JStr default_user))]
      else if field child (asc ''type'') = JStr (asc ''image'') then
        template [JStr image_open, or_js (field child (asc ''url'')) (JStr []), JStr (asc '')'')]
      else if truthy (field child (asc ''children'')) then
        (case field child (asc ''children'') of
           JArr cs \<Rightarrow> bindE (mapE parseInlineElement cs) (joined [])
         | _ \<Rightarrow> Inl TypeError)
      else Inr (or_js (field child (asc ''text'')) (JStr [])))"
  by pat_completeness auto
termination
  by (relation "measure size") (auto dest: size_field_children)

text \<open>
  In a list, \<open>children.map((item, index) => ...)\<close> numbers the items from 0; the model
  pairs each item with its index.
\<close>

definition indexed :: "'a list \<Rightarrow> (nat \<times> 'a) list" where
  "indexed xs = zip [0..<length xs] xs"

lemma indexed_member: "(i, x) \<in> set (indexed xs) \<Longrightarrow> x \<in> set xs"
  by (auto simp: indexed_def dest: set_zip_rightD)

function parseBlockElement :: "jv \<Rightarrow> error + jv" where
  "parseBlockElement block =
     (if nullish block then Inl TypeError
      else if \<not> truthy (field block (asc ''type'')) then
        Inr (or_js (field block (asc ''text'')) (JStr []))
      else if field block (asc ''type'') = JStr (asc ''paragraph'') then
        (if truthy (field block (asc ''children'')) then
           (case field block (asc ''children'') of
              JArr cs \<Rightarrow> bindE (mapE parseInlineElement cs) (joined [])
            | _ \<Rightarrow> Inl TypeError)
         else Inr (JStr []))
      else if field block (asc ''type'') = JStr (asc ''code'') then
        template [JStr (asc ''```''), or_js (field block (asc ''language'')) (JStr []),
                  JStr [nl], or_js (field block (asc ''content'')) (JStr []),
                  JStr ([nl] @ asc ''```'')]
      else if field block (asc ''type'') = JStr (asc ''image'') then
        template [JStr image_open, or_js (field block (asc ''url'')) (JStr []), JStr (asc '')'')]
      else if field block (asc ''type'') = JStr (asc ''blockquote'') then
        (if truthy (field block (asc ''children'')) then
           (case field block (asc ''children'') of
              JArr cs \<Rightarrow>
                bindE (mapE parseBlockElement cs) (\<lambda>rs.
                bindE (join_js [nl] rs) (\<lambda>quoteContent.
                  Inr (JStr (join [nl] (map (\<lambda>line. asc ''> '' @ line) (split nl quoteContent))))))
            | _ \<Rightarrow> Inl TypeError)
         else Inr (JStr []))
      else if field block (asc ''type'') = JStr (asc ''bulleted-list'')
            \<or> field block (asc ''type'') = JStr (asc ''numbered-list'') then
        (if truthy (field block (asc ''children'')) then
           (case field block (asc ''children'') of
              JArr items \<Rightarrow>
                bindE (mapE (\<lambda>(index, item).
                         if nullish item then Inl TypeError
                         else
                           bindE (case field item (asc ''children'') of
                                    JUndef \<Rightarrow> Inr JUndef
                                  | JNull \<Rightarrow> Inr JUndef
                                  | JArr cs \<Rightarrow> bindE (mapE parseBlockElement cs) (joined [])
                                  | _ \<Rightarrow> Inl TypeError)
                             (\<lambda>content.
                                bindE (toStr (or_js content (JStr []))) (\<lambda>itemContent.
                                  Inr (JStr ((if field block (asc ''type'') = JStr (asc ''numbered-list'')
                                              then digits (index + 1) @ asc ''. '' else asc ''- '')
                                             @ itemContent)))))
                       (indexed items))
                  (joined [nl])
            | _ \<Rightarrow> Inl TypeError)
         else Inr (JStr []))
      else if field block (asc ''type'') = JStr (asc ''list-item'') then
        (if truthy (field block (asc ''children'')) then
           (case field block (asc ''children'') of
              JArr cs \<Rightarrow> bindE (mapE parseBlockElement cs) (joined [])
            | _ \<Rightarrow> Inl TypeError)
         else Inr (JStr []))
      else if truthy (field block (asc ''children'')) then
        (case field block (asc ''children'') of
           JArr cs \<Rightarrow> bindE (mapE parseInlineElement cs) (joined [])
         | _ \<Rightarrow> Inl TypeError)
      else Inr (or_js (field block (asc ''text'')) (or_js (field block (asc ''content'')) (JStr []))))"
  by pat_completeness auto
termination
proof (relation "measure size", goal_cases)
  case 1
  show ?case by simp
next
  case (2 block cs c)
  then show ?case by (auto dest: size_field_children)
next
  case (3 block items p index item cs c)
  then have "size item < size block"
    by (auto dest!: indexed_member dest: size_field_children)
  moreover have "size c < size item"
    using 3 by (auto dest: size_field_children)
  ultimately show ?case by simp
next
  case (4 block cs c)
  then show ?case by (auto dest: size_field_children)
qed

text \<open>
  The call stack. Both functions recurse natively, through \<open>children.map\<close>, with nothing
  that bounds the depth, and the stack of the engine is finite: a call that finds no room
  raises a RangeError. \<open>parseInlineElement_on room\<close> and \<open>parseBlockElement_on room\<close> are the
  two functions as the engine runs them, with room for \<open>room\<close> nested calls of the renderer.
  One unit of room is the stack that one call of either function takes: its own frame and
  the frames of the \<open>map\<close> and the arrow function it runs. A call that finds no unit left
  raises the RangeError; a call that finds one passes the rest to the calls it makes. The
  bodies are those of \<open>parseInlineElement\<close> and \<open>parseBlockElement\<close>.
\<close>

fun parseInlineElement_on :: "nat \<Rightarrow> jv \<Rightarrow> error + jv" where
  "parseInlineElement_on 0 child = Inl RangeError"
| "parseInlineElement_on (Suc room) child =
     (if nullish child then Inl TypeError
      else if \<not> truthy (field child (asc ''type'')) then
        Inr (or_js (field child (asc ''text'')) (JStr []))
      else if field child (asc ''type'') = JStr (asc ''link'') then
        bindE (case field child (asc ''children'') of
                 JUndef \<Rightarrow> Inr JUndef
               | JNull \<Rightarrow> Inr JUndef
               | JArr cs \<Rightarrow>
                   bindE (mapE (\<lambda>c. if nullish c then Inl TypeError
                                    else Inr (or_js (field c (asc ''text'')) (JStr []))) cs)
                     (joined [])
               | _ \<Rightarrow> Inl TypeError)
          (\<lambda>linkText. template [JStr (asc ''[''), or_js linkText (field child (asc ''url'')),
                                 JStr (asc ''](''), field child (asc ''url''), JStr (asc '')'')])
      else if field child (asc ''type'') = JStr (asc ''mention'') then
        template [JStr (asc ''@''),
                  or_js (field child (asc ''display_name''))
                    (or_js (field child (asc ''text'')) (JStr default_user))]
      else if field child (asc ''type'') = JStr (asc ''image'') then
        template [JStr image_open, or_js (field child (asc ''url'')) (JStr []), JStr (asc '')'')]
      else if truthy (field child (asc ''children'')) then
        (case field child (asc ''children'') of
           JArr cs \<Rightarrow> bindE (mapE (parseInlineElement_on room) cs) (joined [])
         | _ \<Rightarrow> Inl TypeError)
      else Inr (or_js (field child (asc ''text'')) (JStr [])))"

fun parseBlockElement_on :: "nat \<Rightarrow> jv \<Rightarrow> error + jv" where
  "parseBlockElement_on 0 block = Inl RangeError"
| "parseBlockElement_on (Suc room) block =
     (if nullish block then Inl TypeError
      else if \<not> truthy (field block (asc ''type'')) then
        Inr (or_js (field block (asc ''text'')) (JStr []))
      else if field block (asc ''type'') = JStr (asc ''paragraph'') then
        (if truthy (field block (asc ''children'')) then
           (case field block (asc ''children'') of
              JArr cs \<Rightarrow> bindE (mapE (parseInlineElement_on room) cs) (joined [])
            | _ \<Rightarrow> Inl TypeError)
         else Inr (JStr []))
      else if field block (asc ''type'') = JStr (asc ''code'') then
        template [JStr (asc ''```''), or_js (field block (asc ''language'')) (JStr []),
                  JStr [nl], or_js (field block (asc ''content'')) (JStr []),
                  JStr ([nl] @ asc ''```'')]
      else if field block (asc ''type'') = JStr (asc ''image'') then
        template [JStr image_open, or_js (field block (asc ''url'')) (JStr []), JStr (asc '')'')]
      else if field block (asc ''type'') = JStr (asc ''blockquote'') then
        (if truthy (field block (asc ''children'')) then
           (case field block (asc ''children'') of
              JArr cs \<Rightarrow>
                bindE (mapE (parseBlockElement_on room) cs) (\<lambda>rs.
                bindE (join_js [nl] rs) (\<lambda>quoteContent.
                  Inr (JStr (join [nl] (map (\<lambda>line. asc ''> '' @ line) (split nl quoteContent))))))
            | _ \<Rightarrow> Inl TypeError)
         else Inr (JStr []))
      else if field block (asc ''type'') = JStr (asc ''bulleted-list'')
            \<or> field block (asc ''type'') = JStr (asc ''numbered-list'') then
        (if truthy (field block (asc ''children'')) then
           (case field block (asc ''children'') of
              JArr items \<Rightarrow>
                bindE (mapE (\<lambda>(index, item).
                         if nullish item then Inl TypeError
                         else
                           bindE (case field item (asc ''children'') of
                                    JUndef \<Rightarrow> Inr JUndef
                                  | JNull \<Rightarrow> Inr JUndef
                                  | JArr cs \<Rightarrow> bindE (mapE (parseBlockElement_on room) cs) (joined [])
                                  | _ \<Rightarrow> Inl TypeError)
                             (\<lambda>content.
                                bindE (toStr (or_js content (JStr []))) (\<lambda>itemContent.
                                  Inr (JStr ((if field block (asc ''type'') = JStr (asc ''numbered-list'')
                                              then digits (index + 1) @ asc ''. '' else asc ''- '')
                                             @ itemContent)))))
                       (indexed items))
                  (joined [nl])
            | _ \<Rightarrow> Inl TypeError)
         else Inr (JStr []))
      else if field block (asc ''type'') = JStr (asc ''list-item'') then
        (if truthy (field block (asc ''children'')) then
           (case field block (asc ''children'') of
              JArr cs \<Rightarrow> bindE (mapE (parseBlockElement_on room) cs) (joined [])
            | _ \<Rightarrow> Inl TypeError)
         else Inr (JStr []))
      else if truthy (field block (asc ''children'')) then
        (case field block (asc ''children'') of
           JArr cs \<Rightarrow> bindE (mapE (parseInlineElement_on room) cs) (joined [])
         | _ \<Rightarrow> Inl TypeError)
      else Inr (or_js (field block (asc ''text'')) (or_js (field block (asc ''content'')) (JStr []))))"

text \<open>The entry point for a comment's body, with the room the renderer finds.\<close>

definition parseCommentContent :: "nat \<Rightarrow> jv \<Rightarrow> error + jstring" where
  "parseCommentContent room content =
     (case content of
        JArr blocks \<Rightarrow>
          bindE (mapE (parseBlockElement_on room) blocks) (\<lambda>rs.
          bindE (join_js [nl] rs) (\<lambda>s. Inr (trim s)))
      | _ \<Rightarrow> Inr [])"

section \<open>The HTML sanitizer\<close>

text \<open>
  \<open>stripHtml\<close> is a chain of global regular-expression replacements. Each expression is
  modelled by a matcher: at the head of the input it returns the replacement and the
  input after the match, or \<open>None\<close>. \<open>replace_all\<close> is \<open>String.prototype.replace\<close> with a
  global expression: it scans from the left, replaces a match and resumes after it, and
  copies a code unit where nothing matches. Every expression here matches at least one
  code unit (see \<open>match_consumes\<close>); the bound on the rest only serves the termination
  proof.
\<close>

type_synonym matcher = "jstring \<Rightarrow> (jstring \<times> jstring) option"

function replace_all :: "matcher \<Rightarrow> jstring \<Rightarrow> jstring" where
  "replace_all m [] = []"
| "replace_all m (c # cs) =
     (case m (c # cs) of
        None \<Rightarrow> c # replace_all m cs
      | Some (rep, rest) \<Rightarrow> rep @ replace_all m (if length rest \<le> length cs then rest else cs))"
  by pat_completeness auto
termination
  by (relation "measure (\<lambda>(m, s). length s)") auto

definition lt :: "16 word" where "lt = 0x3C"
definition gt :: "16 word" where "gt = 0x3E"
definition amp :: "16 word" where "amp = 0x26"
definition dq :: "16 word" where "dq = 0x22"
definition slash :: "16 word" where "slash = 0x2F"

text \<open>
  Under the \<open>i\<close> flag a lower-case ASCII letter of the pattern also matches its upper-case
  form (and no code unit outside ASCII: canonicalization keeps those apart).
\<close>

definition eq_ci :: "16 word \<Rightarrow> 16 word \<Rightarrow> bool" where
  "eq_ci p x = (x = p \<or> (0x61 \<le> p \<and> p \<le> 0x7A \<and> x = p - 0x20))"

fun strip_prefix_ci :: "jstring \<Rightarrow> jstring \<Rightarrow> jstring option" where
  "strip_prefix_ci [] s = Some s"
| "strip_prefix_ci (p # ps) [] = None"
| "strip_prefix_ci (p # ps) (x # xs) = (if eq_ci p x then strip_prefix_ci ps xs else None)"

fun strip_prefix :: "jstring \<Rightarrow> jstring \<Rightarrow> jstring option" where
  "strip_prefix [] s = Some s"
| "strip_prefix (p # ps) [] = None"
| "strip_prefix (p # ps) (x # xs) = (if p = x then strip_prefix ps xs else None)"

text \<open>
  \<open>/<img[^>]*src="([^"]*)"[^>]*>/gi\<close>. \<open>img_tail\<close> matches \<open>src="([^"]*)"[^>]*>\<close>: both
  starred classes are followed by the one code unit they exclude, so each takes its
  longest run. \<open>img_attrs\<close> is the leading \<open>[^>]*\<close>: greedy, so the longest skip (the last
  \<open>src="\<close> before the first \<open>>\<close>) is tried first and shorter ones on failure.
\<close>

definition img_tail :: "jstring \<Rightarrow> (jstring \<times> jstring) option" where
  "img_tail t =
     (case strip_prefix_ci (asc ''src='' @ [dq]) t of
        None \<Rightarrow> None
      | Some t0 \<Rightarrow>
          (case dropWhile (\<lambda>c. c \<noteq> dq) t0 of
             [] \<Rightarrow> None
           | q # a \<Rightarrow>
               (case dropWhile (\<lambda>c. c \<noteq> gt) a of
                  [] \<Rightarrow> None
                | g # rest \<Rightarrow> Some (takeWhile (\<lambda>c. c \<noteq> dq) t0, rest))))"

fun img_attrs :: "jstring \<Rightarrow> (jstring \<times> jstring) option" where
  "img_attrs [] = None"
| "img_attrs (c # cs) =
     (if c = gt then img_tail (c # cs)
      else (case img_attrs cs of
              Some found \<Rightarrow> Some found
            | None \<Rightarrow> img_tail (c # cs)))"

definition match_img :: matcher where
  "match_img s =
     (case strip_prefix_ci (asc ''<img'') s of
        None \<Rightarrow> None
      | Some r \<Rightarrow>
          (case img_attrs r of
             None \<Rightarrow> None
           | Some (src, rest) \<Rightarrow> Some (image_open @ src @ asc '')'', rest)))"

text \<open>\<open>/<br\s*\/?>/gi\<close>\<close>

definition match_br :: matcher where
  "match_br s =
     (case strip_prefix_ci (asc ''<br'') s of
        None \<Rightarrow> None
      | Some r \<Rightarrow>
          (case dropWhile is_ws r of
             [] \<Rightarrow> None
           | c # cs \<Rightarrow>
               if c = gt then Some ([nl], cs)
               else if c = slash then
                 (case cs of [] \<Rightarrow> None | d # ds \<Rightarrow> if d = gt then Some ([nl], ds) else None)
               else None))"

text \<open>\<open>/<\/p>/gi\<close>\<close>

definition match_p_close :: matcher where
  "match_p_close s = map_option (Pair [nl]) (strip_prefix_ci (asc ''</p>'') s)"

text \<open>\<open>/<[^>]+>/g\<close>\<close>

definition match_tag :: matcher where
  "match_tag s =
     (case s of
        [] \<Rightarrow> None
      | c # r \<Rightarrow>
          if c = lt \<and> takeWhile (\<lambda>c. c \<noteq> gt) r \<noteq> [] then
            (case dropWhile (\<lambda>c. c \<noteq> gt) r of [] \<Rightarrow> None | g # rest \<Rightarrow> Some ([], rest))
          else None)"

text \<open>A literal pattern, as \<open>/&nbsp;/g\<close>.\<close>

definition match_lit :: "jstring \<Rightarrow> jstring \<Rightarrow> matcher" where
  "match_lit pat rep s = map_option (Pair rep) (strip_prefix pat s)"

text \<open>\<open>/\n{3,}/g\<close>\<close>

definition match_newlines :: matcher where
  "match_newlines s =
     (if 3 \<le> length (takeWhile (\<lambda>c. c = nl) s) then Some ([nl, nl], dropWhile (\<lambda>c. c = nl) s)
      else None)"

definition stripHtml :: "jstring \<Rightarrow> jstring" where
  "stripHtml html =
     (if html = [] then []
      else
        (let s1 = replace_all match_img html;
             s2 = replace_all match_br s1;
             s3 = replace_all match_p_close s2;
             s4 = replace_all match_tag s3;
             s5 = replace_all (match_lit (asc ''&nbsp;'') (asc '' '')) s4;
             s6 = replace_all (match_lit (asc ''&lt;'') (asc ''<'')) s5;
             s7 = replace_all (match_lit (asc ''&gt;'') (asc ''>'')) s6;
             s8 = replace_all (match_lit (asc ''&amp;'') (asc ''&'')) s7;
             s9 = replace_all match_newlines s8
         in trim s9))"

section \<open>The host\<close>

text \<open>
  \<open>formatTimestamp\<close> ends in \<open>new Date(ms).toLocaleString('zh-CN', {...})\<close>, whose result
  depends on the time zone and the locale data of the host. The host's formatting of an
  epoch-millisecond value is a parameter of the model, \<open>toLocaleString\<close>. The parameter of
  \<open>formatTimestamp\<close> is declared a number; the callers pass whatever the payload holds, and
  for a truthy value that is not a number the comparison, the product and the \<open>Date\<close>
  constructor coerce it by the host's string-to-number and date parsing: that result is
  the second parameter, \<open>formatOther\<close>. The third, \<open>stack\<close>, is the room the renderer finds
  on the call stack where \<open>formatWorkItem\<close> calls \<open>parseCommentContent\<close>.
\<close>

record host =
  toLocaleString :: "int \<Rightarrow> jstring"
  formatOther :: "jv \<Rightarrow> error + jstring"
  stack :: nat

definition formatTimestamp :: "host \<Rightarrow> jv \<Rightarrow> error + jstring" where
  "formatTimestamp h ts =
     (if \<not> truthy ts then Inr []
      else (case ts of
              JNum n \<Rightarrow> Inr (toLocaleString h (if 1000000000000 < n then n else n * 1000))
            | _ \<Rightarrow> formatOther h ts))"

section \<open>The field formatter\<close>












definition lbl_not_set :: jstring where
  "lbl_not_set = [0x672A, 0x8BBE, 0x7F6E]"

definition lbl_urgent :: jstring where
  "lbl_urgent = [0x7D27, 0x6025]"

definition lbl_high :: jstring where
  "lbl_high = [0x9AD8]"

definition lbl_medium :: jstring where
  "lbl_medium = [0x4E2D]"

definition lbl_low :: jstring where
  "lbl_low = [0x4F4E]"















definition PRIORITY_MAP :: jv where
  "PRIORITY_MAP =
     JObj [(asc ''5cb9466afda1ce4ca0090001'', JStr lbl_urgent),
           (asc ''5cb9466afda1ce4ca0090002'', JStr lbl_high),
           (asc ''5cb9466afda1ce4ca0090003'', JStr lbl_medium),
           (asc ''5cb9466afda1ce4ca0090004'', JStr lbl_low)]"

definition index_js :: "jv \<Rightarrow> jv \<Rightarrow> error + jv" where
  "index_js tbl key = bindE (toStr key) (\<lambda>k. Inr (field tbl k))"


record Attachment =
  name :: jv
  url :: jv

record Comment =
  author :: jv
  time :: jstring
  content :: jstring





definition priorityName :: "jv \<Rightarrow> error + jv" where
  "priorityName item =
     (if truthy (field item (asc ''priority'')) then
        bindE (index_js PRIORITY_MAP (field item (asc ''priority''))) (\<lambda>p.
          Inr (or_js p (or_js (opt_field (field item (asc ''priority'')) (asc ''name''))
                          (JStr lbl_not_set))))
      else Inr (JStr lbl_not_set))"









section \<open>The record projector\<close>



section \<open>The directive generator\<close>


























section \<open>Block trees\<close>

text \<open>
  A Block tree, as the renderer expects it: an object whose \<open>children\<close>, when present,
  are an array of Block trees, and whose payload fields (\<open>text\<close>, \<open>content\<close>, \<open>url\<close>,
  \<open>language\<close>, \<open>display_name\<close>) are strings when present. The kind (\<open>type\<close>) is not
  constrained: it may be one the renderer knows, any other value, or missing. A field is
  absent when it is missing, \<open>undefined\<close> or \<open>null\<close>.
\<close>

fun opt_string :: "jv \<Rightarrow> bool" where
  "opt_string JUndef = True"
| "opt_string JNull = True"
| "opt_string (JStr s) = True"
| "opt_string v = False"

function block_tree :: "jv \<Rightarrow> bool" where
  "block_tree v =
     (case v of
        JObj kvs \<Rightarrow>
          opt_string (field v (asc ''text'')) \<and> opt_string (field v (asc ''content''))
          \<and> opt_string (field v (asc ''url'')) \<and> opt_string (field v (asc ''language''))
          \<and> opt_string (field v (asc ''display_name''))
          \<and> (case field v (asc ''children'') of
                JUndef \<Rightarrow> True
              | JNull \<Rightarrow> True
              | JArr cs \<Rightarrow> list_all block_tree cs
              | _ \<Rightarrow> False)
      | _ \<Rightarrow> False)"
  by pat_completeness auto
termination
  by (relation "measure size") (auto dest: size_field_children)

text \<open>
  The depth of a tree counts its levels along \<open>children\<close>: a node without an array of
  children has depth 1. It bounds the nesting of the renderer's calls from above (the
  renderer does not descend into every node).
\<close>

function depth :: "jv \<Rightarrow> nat" where
  "depth v = Suc (case field v (asc ''children'') of
                    JArr cs \<Rightarrow> foldr max (map depth cs) 0
                  | _ \<Rightarrow> 0)"
  by pat_completeness auto
termination
  by (relation "measure size") (auto dest: size_field_children)

declare block_tree.simps [simp del]
declare depth.simps [simp del]
declare parseBlockElement.simps [simp del]
declare parseInlineElement.simps [simp del]

definition is_str :: "jv \<Rightarrow> bool" where
  "is_str v = (case v of JStr s \<Rightarrow> True | _ \<Rightarrow> False)"

lemma is_str_iff: "is_str v \<longleftrightarrow> (\<exists>s. v = JStr s)"
  by (cases v) (simp_all add: is_str_def)

lemma toStr_opt_string: "opt_string v \<Longrightarrow> \<exists>s. toStr v = Inr s"
  by (cases v) simp_all

lemma opt_string_or_js: "opt_string a \<Longrightarrow> opt_string b \<Longrightarrow> opt_string (or_js a b)"
  by (simp add: or_js_def)

lemma is_str_or_js: "opt_string a \<Longrightarrow> is_str b \<Longrightarrow> is_str (or_js a b)"
  by (cases a) (auto simp: or_js_def is_str_def)

lemma mapE_total:
  "(\<And>x. x \<in> set xs \<Longrightarrow> \<exists>y. f x = Inr y \<and> P y) \<Longrightarrow> \<exists>ys. mapE f xs = Inr ys \<and> list_all P ys"
proof (induction xs)
  case Nil
  then show ?case by simp
next
  case (Cons x xs)
  obtain y where y: "f x = Inr y" "P y" using Cons.prems by auto
  obtain ys where ys: "mapE f xs = Inr ys" "list_all P ys" using Cons by auto
  show ?case using y ys by simp
qed

lemma template_total: "list_all opt_string parts \<Longrightarrow> \<exists>s. template parts = Inr (JStr s)"
proof -
  assume a: "list_all opt_string parts"
  have "\<exists>ys. mapE toStr parts = Inr ys \<and> list_all (\<lambda>_. True) ys"
    by (rule mapE_total) (use a in \<open>auto simp: list_all_iff dest: toStr_opt_string\<close>)
  then show ?thesis by (auto simp: template_def)
qed

lemma joined_total: "list_all is_str rs \<Longrightarrow> \<exists>s. joined sep rs = Inr (JStr s)"
proof -
  assume a: "list_all is_str rs"
  have "\<exists>ys. mapE (\<lambda>x. if nullish x then Inr [] else toStr x) rs = Inr ys \<and> list_all (\<lambda>_. True) ys"
    by (rule mapE_total) (use a in \<open>auto simp: list_all_iff is_str_iff\<close>)
  then show ?thesis by (auto simp: joined_def join_js_def)
qed


lemma block_tree_children:
  "block_tree v \<Longrightarrow> field v (asc ''children'') = JArr cs \<Longrightarrow> c \<in> set cs \<Longrightarrow> block_tree c \<and> size c < size v"
  by (subst (asm) block_tree.simps) (auto split: jv.splits simp: list_all_iff dest: size_field_children)

lemma block_tree_fields:
  "block_tree v \<Longrightarrow> \<not> nullish v \<and> opt_string (field v (asc ''text'')) \<and> opt_string (field v (asc ''content''))
          \<and> opt_string (field v (asc ''url'')) \<and> opt_string (field v (asc ''language''))
          \<and> opt_string (field v (asc ''display_name''))
          \<and> (truthy (field v (asc ''children'')) \<longrightarrow> (\<exists>cs. field v (asc ''children'') = JArr cs))
          \<and> (nullish (field v (asc ''children'')) \<or> (\<exists>cs. field v (asc ''children'') = JArr cs))"
  by (subst (asm) block_tree.simps) (auto split: jv.splits)


lemma or_js_str: "opt_string a \<Longrightarrow> \<exists>s. or_js a (JStr d) = JStr s"
  by (cases a) (auto simp: or_js_def)

lemma is_str_opt_string: "is_str v \<Longrightarrow> opt_string v"
  by (auto simp: is_str_iff)

lemma render_children:
  assumes "\<And>c. c \<in> set cs \<Longrightarrow> \<exists>s. f c = Inr (JStr s)"
  shows "\<exists>s. bindE (mapE f cs) (joined sep) = Inr (JStr s)"
proof -
  have "\<exists>ys. mapE f cs = Inr ys \<and> list_all is_str ys"
    by (rule mapE_total) (use assms in \<open>auto simp: is_str_iff\<close>)
  then obtain ys where ys: "mapE f cs = Inr ys" "list_all is_str ys" by auto
  show ?thesis using ys joined_total [of ys sep] by simp
qed


lemma inline_nokind:
  "\<not> nullish c \<Longrightarrow> \<not> truthy (field c (asc ''type'')) \<Longrightarrow>
   parseInlineElement c = Inr (or_js (field c (asc ''text'')) (JStr []))"
  by (subst parseInlineElement.simps) simp

lemma inline_link:
  "\<not> nullish c \<Longrightarrow> field c (asc ''type'') = JStr (asc ''link'') \<Longrightarrow>
   parseInlineElement c =
     bindE (case field c (asc ''children'') of
                 JUndef \<Rightarrow> Inr JUndef
               | JNull \<Rightarrow> Inr JUndef
               | JArr cs \<Rightarrow>
                   bindE (mapE (\<lambda>c. if nullish c then Inl TypeError
                                    else Inr (or_js (field c (asc ''text'')) (JStr []))) cs)
                     (joined [])
               | _ \<Rightarrow> Inl TypeError)
          (\<lambda>linkText. template [JStr (asc ''[''), or_js linkText (field c (asc ''url'')),
                                 JStr (asc ''](''), field c (asc ''url''), JStr (asc '')'')])"
  by (subst parseInlineElement.simps) (simp add: asc_def)

lemma inline_mention:
  "\<not> nullish c \<Longrightarrow> field c (asc ''type'') = JStr (asc ''mention'') \<Longrightarrow>
   parseInlineElement c =
     template [JStr (asc ''@''),
                  or_js (field c (asc ''display_name''))
                    (or_js (field c (asc ''text'')) (JStr default_user))]"
  by (subst parseInlineElement.simps) (simp add: asc_def)

lemma inline_image:
  "\<not> nullish c \<Longrightarrow> field c (asc ''type'') = JStr (asc ''image'') \<Longrightarrow>
   parseInlineElement c =
     template [JStr image_open, or_js (field c (asc ''url'')) (JStr []), JStr (asc '')'')]"
  by (subst parseInlineElement.simps) (simp add: asc_def)

lemma inline_other:
  "\<not> nullish c \<Longrightarrow> truthy (field c (asc ''type'')) \<Longrightarrow>
   field c (asc ''type'') \<noteq> JStr (asc ''link'') \<Longrightarrow>
   field c (asc ''type'') \<noteq> JStr (asc ''mention'') \<Longrightarrow>
   field c (asc ''type'') \<noteq> JStr (asc ''image'') \<Longrightarrow>
   parseInlineElement c =
     (if truthy (field c (asc ''children'')) then
        (case field c (asc ''children'') of
           JArr cs \<Rightarrow> bindE (mapE parseInlineElement cs) (joined [])
         | _ \<Rightarrow> Inl TypeError)
      else Inr (or_js (field c (asc ''text'')) (JStr [])))"
  by (subst parseInlineElement.simps) simp


lemma children_shape:
  "block_tree v \<Longrightarrow> \<not> truthy (field v (asc ''children'')) \<or> (\<exists>cs. field v (asc ''children'') = JArr cs)"
  using block_tree_fields [of v] by (cases "field v (asc ''children'')") auto

lemma children_opt_shape:
  "block_tree v \<Longrightarrow> nullish (field v (asc ''children'')) \<or> (\<exists>cs. field v (asc ''children'') = JArr cs)"
  using block_tree_fields [of v] by blast

lemma inline_total: "block_tree v \<Longrightarrow> \<exists>s. parseInlineElement v = Inr (JStr s)"
proof (induction v rule: measure_induct_rule [of size])
  case (less v)
  note f = block_tree_fields [OF less.prems]
  let ?t = "field v (asc ''type'')"
  have nn: "\<not> nullish v" using f by simp
  have tleaf: "\<exists>s. or_js (field v (asc ''text'')) (JStr []) = JStr s"
    using f by (simp add: or_js_str)
  have kids: "\<exists>s. bindE (mapE parseInlineElement cs) (joined []) = Inr (JStr s)"
    if "field v (asc ''children'') = JArr cs" for cs
    by (rule render_children) (use that less.prems less.IH block_tree_children in blast)
  have link: "\<exists>s. template [JStr (asc ''[''), or_js linkText (field v (asc ''url'')),
                 JStr (asc ''](''), field v (asc ''url''), JStr (asc '')'')] = Inr (JStr s)"
    if "opt_string linkText" for linkText
    by (rule template_total) (use that f in \<open>simp add: opt_string_or_js\<close>)
  have linkkids: "\<exists>s. bindE (mapE (\<lambda>c. if nullish c then Inl TypeError
                                    else Inr (or_js (field c (asc ''text'')) (JStr []))) cs)
                     (joined []) = Inr (JStr s)"
    if "field v (asc ''children'') = JArr cs" for cs
  proof (rule render_children)
    fix c assume "c \<in> set cs"
    then have "block_tree c" using that less.prems block_tree_children by blast
    then show "\<exists>s. (if nullish c then Inl TypeError
                   else Inr (or_js (field c (asc ''text'')) (JStr []))) = Inr (JStr s)"
      using block_tree_fields [of c] or_js_str [of "field c (asc ''text'')" "[]"]
      by auto
  qed
  consider (nokind) "\<not> truthy ?t" | (link) "?t = JStr (asc ''link'')"
    | (mention) "?t = JStr (asc ''mention'')" | (image) "?t = JStr (asc ''image'')"
    | (other) "truthy ?t" "?t \<noteq> JStr (asc ''link'')" "?t \<noteq> JStr (asc ''mention'')"
        "?t \<noteq> JStr (asc ''image'')"
    by blast
  then show ?case
  proof cases
    case nokind
    then show ?thesis using tleaf nn by (simp add: inline_nokind)
  next
    case link
    have "\<exists>linked. (case field v (asc ''children'') of
                 JUndef \<Rightarrow> Inr JUndef
               | JNull \<Rightarrow> Inr JUndef
               | JArr cs \<Rightarrow>
                   bindE (mapE (\<lambda>c. if nullish c then Inl TypeError
                                    else Inr (or_js (field c (asc ''text'')) (JStr []))) cs)
                     (joined [])
               | _ \<Rightarrow> Inl TypeError) = Inr linked \<and> opt_string linked"
      using children_opt_shape [OF less.prems] linkkids
      by (cases "field v (asc ''children'')") auto
    then show ?thesis
      using inline_link [OF nn link] \<open>\<And>linkText. opt_string linkText \<Longrightarrow> _\<close> by auto
  next
    case mention
    have "\<exists>s. template [JStr (asc ''@''),
                  or_js (field v (asc ''display_name''))
                    (or_js (field v (asc ''text'')) (JStr default_user))] = Inr (JStr s)"
      by (rule template_total) (use f in \<open>simp add: opt_string_or_js\<close>)
    then show ?thesis using inline_mention [OF nn mention] by simp
  next
    case image
    have "\<exists>s. template [JStr image_open, or_js (field v (asc ''url'')) (JStr []), JStr (asc '')'')] = Inr (JStr s)"
      by (rule template_total) (use f in \<open>simp add: opt_string_or_js\<close>)
    then show ?thesis using inline_image [OF nn image] by simp
  next
    case other
    show ?thesis
      using children_shape [OF less.prems] kids tleaf
      by (subst inline_other [OF nn other]) auto
  qed
qed


lemma block_nokind:
  "\<not> nullish b \<Longrightarrow> \<not> truthy (field b (asc ''type'')) \<Longrightarrow>
   parseBlockElement b = Inr (or_js (field b (asc ''text'')) (JStr []))"
  by (subst parseBlockElement.simps) simp

lemma block_paragraph:
  "\<not> nullish b \<Longrightarrow> field b (asc ''type'') = JStr (asc ''paragraph'') \<Longrightarrow>
   parseBlockElement b =
     (if truthy (field b (asc ''children'')) then
        (case field b (asc ''children'') of
           JArr cs \<Rightarrow> bindE (mapE parseInlineElement cs) (joined [])
         | _ \<Rightarrow> Inl TypeError)
      else Inr (JStr []))"
  by (subst parseBlockElement.simps) (simp add: asc_def)

lemma block_code:
  "\<not> nullish b \<Longrightarrow> field b (asc ''type'') = JStr (asc ''code'') \<Longrightarrow>
   parseBlockElement b =
     template [JStr (asc ''```''), or_js (field b (asc ''language'')) (JStr []),
               JStr [nl], or_js (field b (asc ''content'')) (JStr []),
               JStr ([nl] @ asc ''```'')]"
  by (subst parseBlockElement.simps) (simp add: asc_def)

lemma block_image:
  "\<not> nullish b \<Longrightarrow> field b (asc ''type'') = JStr (asc ''image'') \<Longrightarrow>
   parseBlockElement b =
     template [JStr image_open, or_js (field b (asc ''url'')) (JStr []), JStr (asc '')'')]"
  by (subst parseBlockElement.simps) (simp add: asc_def)

lemma block_blockquote:
  "\<not> nullish b \<Longrightarrow> field b (asc ''type'') = JStr (asc ''blockquote'') \<Longrightarrow>
   parseBlockElement b =
     (if truthy (field b (asc ''children'')) then
        (case field b (asc ''children'') of
           JArr cs \<Rightarrow>
             bindE (mapE parseBlockElement cs) (\<lambda>rs.
             bindE (join_js [nl] rs) (\<lambda>quoteContent.
               Inr (JStr (join [nl] (map (\<lambda>line. asc ''> '' @ line) (split nl quoteContent))))))
         | _ \<Rightarrow> Inl TypeError)
      else Inr (JStr []))"
  by (subst parseBlockElement.simps) (simp add: asc_def)

lemma block_list:
  "\<not> nullish b \<Longrightarrow>
   field b (asc ''type'') = JStr (asc ''bulleted-list'')
     \<or> field b (asc ''type'') = JStr (asc ''numbered-list'') \<Longrightarrow>
   parseBlockElement b =
     (if truthy (field b (asc ''children'')) then
        (case field b (asc ''children'') of
           JArr items \<Rightarrow>
             bindE (mapE (\<lambda>(index, item).
                      if nullish item then Inl TypeError
                      else
                        bindE (case field item (asc ''children'') of
                                 JUndef \<Rightarrow> Inr JUndef
                               | JNull \<Rightarrow> Inr JUndef
                               | JArr cs \<Rightarrow> bindE (mapE parseBlockElement cs) (joined [])
                               | _ \<Rightarrow> Inl TypeError)
                          (\<lambda>content.
                             bindE (toStr (or_js content (JStr []))) (\<lambda>itemContent.
                               Inr (JStr ((if field b (asc ''type'') = JStr (asc ''numbered-list'')
                                           then digits (index + 1) @ asc ''. '' else asc ''- '')
                                          @ itemContent)))))
                    (indexed items))
               (joined [nl])
         | _ \<Rightarrow> Inl TypeError)
      else Inr (JStr []))"
  by (subst parseBlockElement.simps) (auto simp add: asc_def)

lemma block_list_item:
  "\<not> nullish b \<Longrightarrow> field b (asc ''type'') = JStr (asc ''list-item'') \<Longrightarrow>
   parseBlockElement b =
     (if truthy (field b (asc ''children'')) then
        (case field b (asc ''children'') of
           JArr cs \<Rightarrow> bindE (mapE parseBlockElement cs) (joined [])
         | _ \<Rightarrow> Inl TypeError)
      else Inr (JStr []))"
  by (subst parseBlockElement.simps) (simp add: asc_def)

definition block_kinds :: "jstring list" where
  "block_kinds = [asc ''paragraph'', asc ''code'', asc ''image'', asc ''blockquote'',
                  asc ''bulleted-list'', asc ''numbered-list'', asc ''list-item'']"

lemma block_other:
  "\<not> nullish b \<Longrightarrow> truthy (field b (asc ''type'')) \<Longrightarrow>
   field b (asc ''type'') \<notin> JStr ` set block_kinds \<Longrightarrow>
   parseBlockElement b =
     (if truthy (field b (asc ''children'')) then
        (case field b (asc ''children'') of
           JArr cs \<Rightarrow> bindE (mapE parseInlineElement cs) (joined [])
         | _ \<Rightarrow> Inl TypeError)
      else Inr (or_js (field b (asc ''text'')) (or_js (field b (asc ''content'')) (JStr []))))"
  by (subst parseBlockElement.simps) (simp add: block_kinds_def)


lemma list_items_total:
  assumes bt: "block_tree v" and items: "field v (asc ''children'') = JArr items"
    and IH: "\<And>c. size c < size v \<Longrightarrow> block_tree c \<Longrightarrow> \<exists>s. parseBlockElement c = Inr (JStr s)"
  shows "\<exists>s. bindE (mapE (\<lambda>(index, item).
                      if nullish item then Inl TypeError
                      else
                        bindE (case field item (asc ''children'') of
                                 JUndef \<Rightarrow> Inr JUndef
                               | JNull \<Rightarrow> Inr JUndef
                               | JArr cs \<Rightarrow> bindE (mapE parseBlockElement cs) (joined [])
                               | _ \<Rightarrow> Inl TypeError)
                          (\<lambda>content.
                             bindE (toStr (or_js content (JStr []))) (\<lambda>itemContent.
                               Inr (JStr ((if numbered
                                           then digits (index + 1) @ asc ''. '' else asc ''- '')
                                          @ itemContent)))))
                    (indexed items))
               (joined [nl]) = Inr (JStr s)"
proof (rule render_children, clarify)
  fix index item assume "(index, item) \<in> set (indexed items)"
  then have mem: "item \<in> set items" by (rule indexed_member)
  then have bti: "block_tree item" and sz: "size item < size v"
    using items bt block_tree_children by blast+
  have nn: "\<not> nullish item" using block_tree_fields [OF bti] by simp
  have "\<exists>c. (case field item (asc ''children'') of
                JUndef \<Rightarrow> Inr JUndef
              | JNull \<Rightarrow> Inr JUndef
              | JArr cs \<Rightarrow> bindE (mapE parseBlockElement cs) (joined [])
              | _ \<Rightarrow> Inl TypeError) = Inr c \<and> opt_string c"
  proof (cases "field item (asc ''children'')")
    case (JArr gcs)
    have "\<exists>s. bindE (mapE parseBlockElement gcs) (joined []) = Inr (JStr s)"
    proof (rule render_children)
      fix c assume "c \<in> set gcs"
      then have "block_tree c \<and> size c < size item"
        using JArr bti block_tree_children by blast
      then show "\<exists>s. parseBlockElement c = Inr (JStr s)"
        using IH sz by simp
    qed
    then show ?thesis using JArr by auto
  qed (use children_opt_shape [OF bti] in auto)
  then obtain c where c: "(case field item (asc ''children'') of
                JUndef \<Rightarrow> Inr JUndef
              | JNull \<Rightarrow> Inr JUndef
              | JArr cs \<Rightarrow> bindE (mapE parseBlockElement cs) (joined [])
              | _ \<Rightarrow> Inl TypeError) = Inr c" "opt_string c"
    by blast
  obtain t where t: "toStr (or_js c (JStr [])) = Inr t"
    using toStr_opt_string [of "or_js c (JStr [])"] c(2) by (auto simp: opt_string_or_js)
  show "\<exists>s. (if nullish item then Inl TypeError
              else
                bindE (case field item (asc ''children'') of
                         JUndef \<Rightarrow> Inr JUndef
                       | JNull \<Rightarrow> Inr JUndef
                       | JArr cs \<Rightarrow> bindE (mapE parseBlockElement cs) (joined [])
                       | _ \<Rightarrow> Inl TypeError)
                  (\<lambda>content.
                     bindE (toStr (or_js content (JStr []))) (\<lambda>itemContent.
                       Inr (JStr ((if numbered
                                   then digits (index + 1) @ asc ''. '' else asc ''- '')
                                  @ itemContent))))) = Inr (JStr s)"
    using nn c(1) t by simp
qed

lemma block_total: "block_tree v \<Longrightarrow> \<exists>s. parseBlockElement v = Inr (JStr s)"
proof (induction v rule: measure_induct_rule [of size])
  case (less v)
  note f = block_tree_fields [OF less.prems]
  note shape = children_shape [OF less.prems]
  let ?t = "field v (asc ''type'')"
  have nn: "\<not> nullish v" using f by simp
  have inl: "\<exists>s. bindE (mapE parseInlineElement cs) (joined []) = Inr (JStr s)"
    if "field v (asc ''children'') = JArr cs" for cs
    by (rule render_children) (use that less.prems inline_total block_tree_children in blast)
  have blk: "\<exists>s. bindE (mapE parseBlockElement cs) (joined sep) = Inr (JStr s)"
    if "field v (asc ''children'') = JArr cs" for cs sep
    by (rule render_children) (use that less.prems less.IH block_tree_children in blast)
  consider (nokind) "\<not> truthy ?t" | (para) "?t = JStr (asc ''paragraph'')"
    | (code) "?t = JStr (asc ''code'')" | (image) "?t = JStr (asc ''image'')"
    | (blockquote) "?t = JStr (asc ''blockquote'')"
    | (list) "?t = JStr (asc ''bulleted-list'') \<or> ?t = JStr (asc ''numbered-list'')"
    | (list_item) "?t = JStr (asc ''list-item'')"
    | (other) "truthy ?t" "?t \<notin> JStr ` set block_kinds"
    by (auto simp: block_kinds_def)
  then show ?case
  proof cases
    case nokind
    then show ?thesis
      using nn f by (simp add: block_nokind or_js_str)
  next
    case para
    show ?thesis
      using shape inl by (subst block_paragraph [OF nn para]) auto
  next
    case code
    have "\<exists>s. template [JStr (asc ''```''), or_js (field v (asc ''language'')) (JStr []),
                  JStr [nl], or_js (field v (asc ''content'')) (JStr []),
                  JStr ([nl] @ asc ''```'')] = Inr (JStr s)"
      by (rule template_total) (use f in \<open>simp add: opt_string_or_js\<close>)
    then show ?thesis using block_code [OF nn code] by simp
  next
    case image
    have "\<exists>s. template [JStr image_open, or_js (field v (asc ''url'')) (JStr []), JStr (asc '')'')] = Inr (JStr s)"
      by (rule template_total) (use f in \<open>simp add: opt_string_or_js\<close>)
    then show ?thesis using block_image [OF nn image] by simp
  next
    case blockquote
    have "\<exists>s. bindE (mapE parseBlockElement cs) (\<lambda>rs.
                bindE (join_js [nl] rs) (\<lambda>quoteContent.
                  Inr (JStr (join [nl] (map (\<lambda>line. asc ''> '' @ line) (split nl quoteContent)))))) = Inr (JStr s)"
      if "field v (asc ''children'') = JArr cs" for cs
      using blk [OF that, of "[nl]"]
      by (auto simp: joined_def bindE_def split: sum.splits)
    then show ?thesis
      using shape by (subst block_blockquote [OF nn blockquote]) auto
  next
    case list
    show ?thesis
      using shape list_items_total [OF less.prems _ less.IH]
      by (subst block_list [OF nn list]) auto
  next
    case list_item
    show ?thesis
      using shape blk by (subst block_list_item [OF nn list_item]) auto
  next
    case other
    have "\<exists>s. or_js (field v (asc ''text'')) (or_js (field v (asc ''content'')) (JStr [])) = JStr s"
      using f or_js_str [of "field v (asc ''content'')" "[]"]
      by (cases "field v (asc ''text'')") (auto simp: or_js_def)
    then show ?thesis
      using shape inl by (subst block_other [OF nn other]) auto
  qed
qed

lemma foldr_max_ge: "x \<in> set xs \<Longrightarrow> x \<le> foldr max xs (0::nat)"
  by (induction xs) auto

lemma depth_pos: "0 < depth v"
  by (subst depth.simps) simp

lemma depth_child:
  "field v (asc ''children'') = JArr cs \<Longrightarrow> c \<in> set cs \<Longrightarrow> depth c < depth v"
  by (subst (2) depth.simps) (simp add: foldr_max_ge less_Suc_eq_le)

text \<open>
  With room for the depth of the tree, the renderer on the engine's stack computes what
  \<open>parseInlineElement\<close> and \<open>parseBlockElement\<close> compute.
\<close>

lemma inline_on_enough:
  "depth v \<le> room \<Longrightarrow> parseInlineElement_on room v = parseInlineElement v"
proof (induction room arbitrary: v)
  case 0
  then show ?case using depth_pos [of v] by simp
next
  case (Suc room)
  show ?case
  proof (cases "field v (asc ''children'')")
    case (JArr cs)
    have "mapE (parseInlineElement_on room) cs = mapE parseInlineElement cs"
    proof (rule mapE_cong [OF refl])
      fix c assume "c \<in> set cs"
      then have "depth c \<le> room" using depth_child [OF JArr] Suc.prems by fastforce
      then show "parseInlineElement_on room c = parseInlineElement c" by (rule Suc.IH)
    qed
    then show ?thesis
      by (subst parseInlineElement.simps) (simp add: JArr)
  qed (subst parseInlineElement.simps, simp)+
qed

lemma block_on_enough:
  "depth v \<le> room \<Longrightarrow> parseBlockElement_on room v = parseBlockElement v"
proof (induction room arbitrary: v)
  case 0
  then show ?case using depth_pos [of v] by simp
next
  case (Suc room)
  show ?case
  proof (cases "field v (asc ''children'')")
    case (JArr cs)
    have d: "depth c \<le> room" if "c \<in> set cs" for c
      using depth_child [OF JArr that] Suc.prems by simp
    have i: "mapE (parseInlineElement_on room) cs = mapE parseInlineElement cs"
      by (rule mapE_cong [OF refl]) (simp add: d inline_on_enough)
    have b: "mapE (parseBlockElement_on room) cs = mapE parseBlockElement cs"
      by (rule mapE_cong [OF refl]) (simp add: d Suc.IH)
    have g: "mapE (parseBlockElement_on room) gcs = mapE parseBlockElement gcs"
      if "item \<in> set cs" "field item (asc ''children'') = JArr gcs" for item gcs
    proof (rule mapE_cong [OF refl])
      fix c assume "c \<in> set gcs"
      then have "depth c \<le> room"
        using depth_child [OF that(2)] d [OF that(1)] by fastforce
      then show "parseBlockElement_on room c = parseBlockElement c" by (rule Suc.IH)
    qed
    have l: "mapE (\<lambda>(index, item).
                         if nullish item then Inl TypeError
                         else
                           bindE (case field item (asc ''children'') of
                                    JUndef \<Rightarrow> Inr JUndef
                                  | JNull \<Rightarrow> Inr JUndef
                                  | JArr cs \<Rightarrow> bindE (mapE (parseBlockElement_on room) cs) (joined [])
                                  | _ \<Rightarrow> Inl TypeError)
                             (\<lambda>content.
                                bindE (toStr (or_js content (JStr []))) (\<lambda>itemContent.
                                  Inr (JStr ((if numbered
                                              then digits (index + 1) @ asc ''. '' else asc ''- '')
                                             @ itemContent)))))
                       (indexed cs)
             = mapE (\<lambda>(index, item).
                         if nullish item then Inl TypeError
                         else
                           bindE (case field item (asc ''children'') of
                                    JUndef \<Rightarrow> Inr JUndef
                                  | JNull \<Rightarrow> Inr JUndef
                                  | JArr cs \<Rightarrow> bindE (mapE parseBlockElement cs) (joined [])
                                  | _ \<Rightarrow> Inl TypeError)
                             (\<lambda>content.
                                bindE (toStr (or_js content (JStr []))) (\<lambda>itemContent.
                                  Inr (JStr ((if numbered
                                              then digits (index + 1) @ asc ''. '' else asc ''- '')
                                             @ itemContent)))))
                       (indexed cs)" for numbered
      apply (rule mapE_cong [OF refl])
      apply clarify
      subgoal for index item
        using g [of item] indexed_member [of index item cs]
        by (cases "field item (asc ''children'')") simp_all
      done
    show ?thesis
      apply (subst parseBlockElement.simps)
      apply (subst parseBlockElement_on.simps)
      apply (simp only: JArr jv.case)
      apply (simp only: i b l)
      done
  qed (subst parseBlockElement.simps, subst parseBlockElement_on.simps, simp only: jv.case)+
qed

lemma block_within:
  "block_tree v \<Longrightarrow> depth v \<le> room \<Longrightarrow> \<exists>s. parseBlockElement_on room v = Inr (JStr s)"
  using block_total [of v] block_on_enough [of v room] by simp

lemma inline_within:
  "block_tree v \<Longrightarrow> depth v \<le> room \<Longrightarrow> \<exists>s. parseInlineElement_on room v = Inr (JStr s)"
  using inline_total [of v] inline_on_enough [of v room] by simp

section \<open>Properties of the renderer\<close>

lemma mapE_Inr: "mapE (\<lambda>x. Inr (g x)) xs = Inr (map g xs)"
  by (induction xs) simp_all

lemma mapE_toStr_strs: "mapE (\<lambda>x. if nullish x then Inr [] else toStr x) (map JStr ss) = Inr ss"
  by (induction ss) simp_all

lemma join_js_strs: "join_js sep (map JStr ss) = Inr (join sep ss)"
  by (simp add: join_js_def mapE_toStr_strs)

lemma joined_strs: "joined sep (map JStr ss) = Inr (JStr (join sep ss))"
  by (simp add: joined_def join_js_strs)

lemma join_empty_sep: "join [] ss = concat ss"
  by (induction "[] :: jstring" ss rule: join.induct) simp_all

fun string_or_empty :: "jv \<Rightarrow> jstring" where
  "string_or_empty (JStr s) = s"
| "string_or_empty v = []"

lemma or_js_string_or_empty: "opt_string a \<Longrightarrow> or_js a (JStr []) = JStr (string_or_empty a)"
  by (cases a) (auto simp: or_js_def)

text \<open>
  C9. A \<open>code\<close> block renders to three parts: the opening fence with the language tag
  (nothing after the fence when the language is absent), the content field as it is, and
  the closing fence, each on a line of its own. The block \<open>{language: "go", content:
  "x:=1"}\<close> is the witness.
\<close>

theorem code_block_fenced:
  assumes "\<not> nullish b" and "field b (asc ''type'') = JStr (asc ''code'')"
    and "opt_string (field b (asc ''language''))" and "opt_string (field b (asc ''content''))"
  shows "parseBlockElement b =
           Inr (JStr (asc ''```'' @ string_or_empty (field b (asc ''language'')) @ [nl]
                      @ string_or_empty (field b (asc ''content'')) @ [nl] @ asc ''```''))"
  using assms by (simp add: block_code or_js_string_or_empty template_def)

theorem code_block_fenced_witness:
  "parseBlockElement (JObj [(asc ''type'', JStr (asc ''code'')), (asc ''language'', JStr (asc ''go'')),
                            (asc ''content'', JStr (asc ''x:=1''))])
     = Inr (JStr (asc ''```go'' @ [nl] @ asc ''x:=1'' @ [nl] @ asc ''```''))
   \<and> parseBlockElement (JObj [(asc ''type'', JStr (asc ''code'')), (asc ''content'', JStr (asc ''x:=1''))])
     = Inr (JStr (asc ''```'' @ [nl] @ asc ''x:=1'' @ [nl] @ asc ''```''))"
proof -
  let ?b = "JObj [(asc ''type'', JStr (asc ''code'')), (asc ''language'', JStr (asc ''go'')),
                  (asc ''content'', JStr (asc ''x:=1''))]"
  let ?c = "JObj [(asc ''type'', JStr (asc ''code'')), (asc ''content'', JStr (asc ''x:=1''))]"
  have b: "\<not> nullish ?b" "field ?b (asc ''type'') = JStr (asc ''code'')"
    "field ?b (asc ''language'') = JStr (asc ''go'')" "field ?b (asc ''content'') = JStr (asc ''x:=1'')"
    by (simp_all add: field_def asc_def)
  have c: "\<not> nullish ?c" "field ?c (asc ''type'') = JStr (asc ''code'')"
    "field ?c (asc ''language'') = JUndef" "field ?c (asc ''content'') = JStr (asc ''x:=1'')"
    by (simp_all add: field_def asc_def inherited_def object_prototype_functions_def)
  show ?thesis
    using code_block_fenced [of ?b] code_block_fenced [of ?c] b c
    by (simp add: asc_def)
qed

text \<open>
  C10. A \<open>blockquote\<close> whose children are the empty array renders to the two characters
  \<open>"> "\<close>; one with no \<open>children\<close> field renders to the empty string.
\<close>

theorem blockquote_empty_children:
  assumes "\<not> nullish b" and "field b (asc ''type'') = JStr (asc ''blockquote'')"
  shows "(field b (asc ''children'') = JArr [] \<longrightarrow> parseBlockElement b = Inr (JStr (asc ''> '')))
       \<and> (field b (asc ''children'') = JUndef \<longrightarrow> parseBlockElement b = Inr (JStr []))"
  using assms by (simp add: block_blockquote join_js_def)

theorem blockquote_empty_children_witness:
  "parseBlockElement (JObj [(asc ''type'', JStr (asc ''blockquote'')), (asc ''children'', JArr [])])
     = Inr (JStr (asc ''> ''))
   \<and> parseBlockElement (JObj [(asc ''type'', JStr (asc ''blockquote''))]) = Inr (JStr [])"
proof -
  let ?b = "JObj [(asc ''type'', JStr (asc ''blockquote'')), (asc ''children'', JArr [])]"
  let ?c = "JObj [(asc ''type'', JStr (asc ''blockquote''))]"
  have b: "\<not> nullish ?b" "field ?b (asc ''type'') = JStr (asc ''blockquote'')"
    "field ?b (asc ''children'') = JArr []"
    by (simp_all add: field_def asc_def)
  have c: "\<not> nullish ?c" "field ?c (asc ''type'') = JStr (asc ''blockquote'')"
    "field ?c (asc ''children'') = JUndef"
    by (simp_all add: field_def asc_def inherited_def object_prototype_functions_def)
  show ?thesis
    using blockquote_empty_children [OF b(1,2)] blockquote_empty_children [OF c(1,2)] b(3) c(3)
    by simp
qed

lemma comment_content_total:
  assumes "list_all (\<lambda>b. block_tree b \<and> depth b \<le> room) blocks"
  shows "\<exists>s. parseCommentContent room (JArr blocks) = Inr s"
proof -
  have "\<exists>s. bindE (mapE (parseBlockElement_on room) blocks) (joined [nl]) = Inr (JStr s)"
    by (rule render_children) (use assms block_within in \<open>auto simp: list_all_iff\<close>)
  then show ?thesis
    by (auto simp: parseCommentContent_def joined_def bindE_def split: sum.splits)
qed

primrec list_item_chain :: "nat \<Rightarrow> jv" where
  "list_item_chain 0 = JObj [(asc ''type'', JStr (asc ''list-item''))]"
| "list_item_chain (Suc n) =
     JObj [(asc ''type'', JStr (asc ''list-item'')), (asc ''children'', JArr [list_item_chain n])]"

lemma chain_fields:
  "\<not> nullish (list_item_chain n)"
  "field (list_item_chain n) (asc ''type'') = JStr (asc ''list-item'')"
  "field (list_item_chain (Suc n)) (asc ''children'') = JArr [list_item_chain n]"
  "field (list_item_chain n) (asc ''text'') = JUndef"
  "field (list_item_chain n) (asc ''content'') = JUndef"
  "field (list_item_chain n) (asc ''url'') = JUndef"
  "field (list_item_chain n) (asc ''language'') = JUndef"
  "field (list_item_chain n) (asc ''display_name'') = JUndef"
  "field (list_item_chain 0) (asc ''children'') = JUndef"
  by (cases n; simp add: field_def inherited_def object_prototype_functions_def asc_def)+

lemma chain_obj: "\<exists>kvs. list_item_chain n = JObj kvs"
  by (cases n) simp_all

declare list_item_chain.simps [simp del]

lemma block_tree_obj:
  "block_tree (JObj kvs) \<longleftrightarrow>
     opt_string (field (JObj kvs) (asc ''text'')) \<and> opt_string (field (JObj kvs) (asc ''content''))
     \<and> opt_string (field (JObj kvs) (asc ''url'')) \<and> opt_string (field (JObj kvs) (asc ''language''))
     \<and> opt_string (field (JObj kvs) (asc ''display_name''))
     \<and> (case field (JObj kvs) (asc ''children'') of
           JUndef \<Rightarrow> True
         | JNull \<Rightarrow> True
         | JArr cs \<Rightarrow> list_all block_tree cs
         | _ \<Rightarrow> False)"
  by (subst block_tree.simps) simp

lemma chain_tree: "block_tree (list_item_chain n)"
proof (induction n)
  case 0
  obtain kvs where k: "list_item_chain 0 = JObj kvs" using chain_obj by blast
  have "block_tree (JObj kvs)"
    by (subst block_tree_obj, unfold k [symmetric]) (simp add: chain_fields)
  then show ?case by (simp add: k)
next
  case (Suc n)
  obtain kvs where k: "list_item_chain (Suc n) = JObj kvs" using chain_obj by blast
  have "block_tree (JObj kvs)"
    by (subst block_tree_obj, unfold k [symmetric]) (simp add: chain_fields Suc)
  then show ?case by (simp add: k)
qed

lemma chain_depth: "depth (list_item_chain n) = Suc n"
proof (induction n)
  case 0
  show ?case by (subst depth.simps) (simp add: chain_fields)
next
  case (Suc n)
  show ?case by (subst depth.simps) (simp add: chain_fields Suc)
qed

lemma block_on_list_item:
  "\<not> nullish b \<Longrightarrow> field b (asc ''type'') = JStr (asc ''list-item'') \<Longrightarrow>
   parseBlockElement_on (Suc room) b =
     (if truthy (field b (asc ''children'')) then
        (case field b (asc ''children'') of
           JArr cs \<Rightarrow> bindE (mapE (parseBlockElement_on room) cs) (joined [])
         | _ \<Rightarrow> Inl TypeError)
      else Inr (JStr []))"
  by (simp add: asc_def)

lemma chain_overflow:
  "room \<le> n \<Longrightarrow> parseBlockElement_on room (list_item_chain n) = Inl RangeError"
proof (induction room arbitrary: n)
  case 0
  show ?case by simp
next
  case (Suc room)
  then obtain m where m: "n = Suc m" "room \<le> m"
    by (cases n) auto
  have "parseBlockElement_on room (list_item_chain m) = Inl RangeError"
    using m(2) by (rule Suc.IH)
  then show ?case
    unfolding m(1) by (simp add: block_on_list_item chain_fields del: parseBlockElement_on.simps)
qed

text \<open>
  C1, as stated, fails. The recursion has no bound and the stack has one: a chain of
  list-items, each the only child of the one before, is an acyclic Block tree, and once it
  is deeper than the room on the stack the call at the bottom raises a RangeError, which
  nothing in the renderer catches. So it is with 3000 list-items on a stack with room for
  2400 nested calls, and with \<open>n\<close> list-items on any stack with room for no more than \<open>n\<close>.
\<close>

theorem deep_chain_overflows:
  "block_tree (list_item_chain 3000) \<and> depth (list_item_chain 3000) = 3001
   \<and> parseBlockElement_on 2400 (list_item_chain 3000) = Inl RangeError
   \<and> parseCommentContent 2400 (JArr [list_item_chain 3000]) = Inl RangeError"
  using chain_tree [of 3000] chain_overflow [of 2400 3000] chain_depth [of 3000]
  by (simp add: parseCommentContent_def)

text \<open>
  C1, amended. On every Block tree that is no deeper than the room on the stack, whatever
  the kinds of its nodes (known, unknown or missing, and also a node with no kind, no
  children and no text), the two functions of the renderer as the engine runs them
  (\<open>parseBlockElement_on\<close>, \<open>parseInlineElement_on\<close>) return a string and raise nothing, and
  so does \<open>parseCommentContent\<close> on an array of such trees. Termination is part of the
  definitions.
\<close>

theorem renderer_total_within:
  "(block_tree v \<and> depth v \<le> room \<longrightarrow>
      (\<exists>s. parseBlockElement_on room v = Inr (JStr s)) \<and> (\<exists>s. parseInlineElement_on room v = Inr (JStr s)))
   \<and> (list_all (\<lambda>b. block_tree b \<and> depth b \<le> room) blocks \<longrightarrow>
        (\<exists>s. parseCommentContent room (JArr blocks) = Inr s))"
  using block_within inline_within comment_content_total by blast

definition sample_tree :: jv where
  "sample_tree =
     JObj [(asc ''type'', JStr (asc ''callout'')),
           (asc ''children'',
            JArr [JObj [],
                  JObj [(asc ''text'', JStr (asc ''a''))],
                  JObj [(asc ''type'', JStr (asc ''numbered-list'')),
                        (asc ''children'',
                         JArr [JObj [(asc ''type'', JStr (asc ''list-item'')),
                                     (asc ''children'',
                                      JArr [JObj [(asc ''type'', JStr (asc ''paragraph'')),
                                                  (asc ''children'', JArr [JObj [(asc ''type'', JStr (asc ''mention''))]])]])]])]])]"

theorem renderer_total_within_witness:
  "block_tree sample_tree \<and> depth sample_tree \<le> 5
   \<and> list_all (\<lambda>b. block_tree b \<and> depth b \<le> 5) [sample_tree, JObj []]
   \<and> (\<exists>s. parseBlockElement_on 5 sample_tree = Inr (JStr s))
   \<and> (\<exists>s. parseInlineElement_on 5 sample_tree = Inr (JStr s))
   \<and> (\<exists>s. parseCommentContent 5 (JArr [sample_tree, JObj []]) = Inr s)
   \<and> (\<exists>s. parseBlockElement_on 3001 (list_item_chain 3000) = Inr (JStr s))"
proof -
  have bt: "block_tree sample_tree" "block_tree (JObj [])"
    by (simp_all add: sample_tree_def block_tree.simps field_def asc_def inherited_def
          object_prototype_functions_def)
  have d: "depth sample_tree \<le> 5" "depth (JObj []) \<le> 5"
    by (simp_all add: sample_tree_def depth.simps field_def asc_def inherited_def
          object_prototype_functions_def)
  show ?thesis
    using renderer_total_within [of sample_tree 5 "[sample_tree, JObj []]"]
      renderer_total_within [of "list_item_chain 3000" 3001 "[]"] chain_tree [of 3000]
      chain_depth [of 3000] bt d
    by simp
qed

text \<open>
  A link span as the claim describes it: kind \<open>link\<close>, a url, and children that are plain
  text leaves (no kind, a text).
\<close>

definition text_leaves :: "jv list \<Rightarrow> jstring list \<Rightarrow> bool" where
  "text_leaves kids ts =
     list_all2 (\<lambda>k t. \<not> nullish k \<and> \<not> truthy (field k (asc ''type'')) \<and> field k (asc ''text'') = JStr t) kids ts"

definition link_span :: "jv \<Rightarrow> jv list \<Rightarrow> jstring \<Rightarrow> bool" where
  "link_span l kids u =
     (\<not> nullish l \<and> field l (asc ''type'') = JStr (asc ''link'')
      \<and> field l (asc ''children'') = JArr kids \<and> field l (asc ''url'') = JStr u)"

lemma or_js_JStr: "or_js (JStr t) (JStr []) = JStr t"
  by (simp add: or_js_def)

lemma text_leaves_inline:
  "text_leaves kids ts \<Longrightarrow> mapE parseInlineElement kids = Inr (map JStr ts)"
  unfolding text_leaves_def
  by (induction kids ts rule: list_all2_induct) (simp_all add: inline_nokind or_js_JStr)

lemma text_leaves_link_text:
  "text_leaves kids ts \<Longrightarrow>
   mapE (\<lambda>c. if nullish c then Inl TypeError
             else Inr (or_js (field c (asc ''text'')) (JStr []))) kids = Inr (map JStr ts)"
  unfolding text_leaves_def
  by (induction kids ts rule: list_all2_induct) (simp_all add: or_js_JStr)

lemma link_in_block:
  assumes "link_span l kids u" and "text_leaves kids ts"
  shows "parseBlockElement l = Inr (JStr (concat ts))"
proof -
  have nn: "\<not> nullish l" and ty: "field l (asc ''type'') = JStr (asc ''link'')"
    and ch: "field l (asc ''children'') = JArr kids"
    using assms(1) by (simp_all add: link_span_def)
  have "truthy (field l (asc ''type''))" "field l (asc ''type'') \<notin> JStr ` set block_kinds"
    using ty by (simp_all add: block_kinds_def asc_def)
  then show ?thesis
    using text_leaves_inline [OF assms(2)]
    by (simp add: block_other [OF nn] ch joined_strs join_empty_sep)
qed

lemma link_inline:
  assumes "link_span l kids u" and "text_leaves kids ts" and "concat ts \<noteq> []"
  shows "parseInlineElement l = Inr (JStr (asc ''['' @ concat ts @ asc '']('' @ u @ asc '')''))"
proof -
  have nn: "\<not> nullish l" and ty: "field l (asc ''type'') = JStr (asc ''link'')"
    and ch: "field l (asc ''children'') = JArr kids" and url: "field l (asc ''url'') = JStr u"
    using assms(1) by (simp_all add: link_span_def)
  show ?thesis
    using text_leaves_link_text [OF assms(2)] assms(3)
    by (simp add: inline_link [OF nn ty] ch url joined_strs join_empty_sep or_js_def template_def)
qed


definition sample_link :: jv where
  "sample_link =
     JObj [(asc ''type'', JStr (asc ''link'')), (asc ''url'', JStr (asc ''http://x'')),
           (asc ''children'', JArr [JObj [(asc ''text'', JStr (asc ''a''))]])]"

definition sample_list_item :: jv where
  "sample_list_item =
     JObj [(asc ''type'', JStr (asc ''list-item'')), (asc ''children'', JArr [sample_link])]"

text \<open>
  C4, as stated, fails: the \<open>list-item\<close> case hands every child to \<open>parseBlockElement\<close>,
  which has no \<open>link\<close> case, so a link under a list-item falls to the block renderer's
  default and comes out as the text of its children, without the url.
\<close>

theorem list_item_link_counterexample:
  "parseBlockElement sample_list_item = Inr (JStr (asc ''a''))
   \<and> parseBlockElement sample_list_item \<noteq> Inr (JStr (asc ''[a](http://x)''))"
  by code_simp

text \<open>
  C4, amended. A \<open>list-item\<close> block concatenates, with no separator, what
  \<open>parseBlockElement\<close> returns for each child: every child goes to the block renderer,
  whatever kind it declares. A link span (children carrying text, and a url) that is a
  child of a list-item renders there as the joined text of its children alone;
  \<open>[<joined text>](<url>)\<close> is what \<open>parseInlineElement\<close> returns for the same span.
\<close>

theorem list_item_children:
  assumes "\<not> nullish b" and "field b (asc ''type'') = JStr (asc ''list-item'')"
    and "field b (asc ''children'') = JArr cs"
  shows "parseBlockElement b = bindE (mapE parseBlockElement cs) (joined [])
       \<and> (mapE parseBlockElement cs = Inr (map JStr ss) \<longrightarrow>
            parseBlockElement b = Inr (JStr (concat ss)))
       \<and> (l \<in> set cs \<and> link_span l kids u \<and> text_leaves kids ts \<longrightarrow>
            parseBlockElement l = Inr (JStr (concat ts))
            \<and> (concat ts \<noteq> [] \<longrightarrow>
                 parseInlineElement l = Inr (JStr (asc ''['' @ concat ts @ asc '']('' @ u @ asc '')''))))"
proof -
  have 1: "parseBlockElement b = bindE (mapE parseBlockElement cs) (joined [])"
    using assms by (simp add: block_list_item)
  then have 2: "parseBlockElement b = Inr (JStr (concat ss))"
    if "mapE parseBlockElement cs = Inr (map JStr ss)"
    using that by (simp add: joined_strs join_empty_sep)
  show ?thesis
    using 1 2 link_in_block link_inline by blast
qed

theorem list_item_children_witness:
  "parseBlockElement sample_list_item = Inr (JStr (asc ''a''))
   \<and> parseBlockElement sample_link = Inr (JStr (asc ''a''))
   \<and> parseInlineElement sample_link = Inr (JStr (asc ''[a](http://x)''))"
proof -
  have b: "\<not> nullish sample_list_item"
    "field sample_list_item (asc ''type'') = JStr (asc ''list-item'')"
    "field sample_list_item (asc ''children'') = JArr [sample_link]"
    by (simp_all add: sample_list_item_def field_def asc_def)
  have l: "link_span sample_link [JObj [(asc ''text'', JStr (asc ''a''))]] (asc ''http://x'')"
    by (simp add: link_span_def sample_link_def field_def asc_def)
  have t: "text_leaves [JObj [(asc ''text'', JStr (asc ''a''))]] [asc ''a'']"
    by (simp add: text_leaves_def field_def asc_def inherited_def object_prototype_functions_def)
  note th = list_item_children [OF b, of "[asc ''a'']" sample_link
      "[JObj [(asc ''text'', JStr (asc ''a''))]]" "asc ''http://x''" "[asc ''a'']"]
  have link: "parseBlockElement sample_link = Inr (JStr (asc ''a''))"
    and inl: "parseInlineElement sample_link = Inr (JStr (asc ''[a](http://x)''))"
    using th l t by (simp_all add: asc_def)
  then show ?thesis
    using th by (simp add: joined_def join_js_def)
qed

section \<open>Properties of the sanitizer\<close>

lemma replace_all_unmatched:
  "(\<And>c cs. c \<in> set s \<Longrightarrow> m (c # cs) = None) \<Longrightarrow> replace_all m s = s"
  by (induction s) simp_all

lemma strip_prefix_ci_head:
  "strip_prefix_ci (p # ps) (c # cs) \<noteq> None \<Longrightarrow> eq_ci p c"
  by (simp split: if_splits)

lemma strip_prefix_head:
  "strip_prefix (p # ps) (c # cs) \<noteq> None \<Longrightarrow> c = p"
  by (simp split: if_splits)

lemma match_img_head: "match_img (c # cs) \<noteq> None \<Longrightarrow> c = lt"
  by (auto simp: match_img_def asc_def eq_ci_def lt_def split: option.splits if_splits)

lemma match_br_head: "match_br (c # cs) \<noteq> None \<Longrightarrow> c = lt"
  by (auto simp: match_br_def asc_def eq_ci_def lt_def split: option.splits if_splits)

lemma match_p_close_head: "match_p_close (c # cs) \<noteq> None \<Longrightarrow> c = lt"
  by (auto simp: match_p_close_def asc_def eq_ci_def lt_def split: option.splits if_splits)

lemma match_tag_head: "match_tag (c # cs) \<noteq> None \<Longrightarrow> c = lt"
  by (auto simp: match_tag_def split: option.splits if_splits)

lemma match_lit_head: "match_lit (p # ps) rep (c # cs) \<noteq> None \<Longrightarrow> c = p"
  by (auto simp: match_lit_def split: if_splits)

lemma entity_head: "match_lit (asc (CHR ''&'' # e)) rep (c # cs) \<noteq> None \<Longrightarrow> c = amp"
  using match_lit_head [of "of_char CHR ''&''" "asc e" rep c cs]
  by (simp add: asc_def amp_def)

lemma no_markup_unchanged:
  assumes "lt \<notin> set s" and "amp \<notin> set s"
  shows "replace_all match_img s = s" and "replace_all match_br s = s"
    and "replace_all match_p_close s = s" and "replace_all match_tag s = s"
    and "replace_all (match_lit (asc (CHR ''&'' # e)) rep) s = s"
proof -
  show "replace_all match_img s = s"
    by (rule replace_all_unmatched) (use assms match_img_head in blast)
  show "replace_all match_br s = s"
    by (rule replace_all_unmatched) (use assms match_br_head in blast)
  show "replace_all match_p_close s = s"
    by (rule replace_all_unmatched) (use assms match_p_close_head in blast)
  show "replace_all match_tag s = s"
    by (rule replace_all_unmatched) (use assms match_tag_head in blast)
  show "replace_all (match_lit (asc (CHR ''&'' # e)) rep) s = s"
    by (rule replace_all_unmatched) (use assms entity_head in blast)
qed

text \<open>On text with neither \<open><\<close> nor \<open>&\<close> only the last two steps of the chain act.\<close>

lemma stripHtml_plain:
  assumes "lt \<notin> set s" and "amp \<notin> set s"
  shows "stripHtml s = trim (replace_all match_newlines s)"
proof (cases "s = []")
  case True
  then show ?thesis by (simp add: stripHtml_def trim_def)
next
  case False
  then show ?thesis
    by (simp add: stripHtml_def no_markup_unchanged [OF assms])
qed


text \<open>
  \<open>run s\<close> is the number of newlines at the head of \<open>s\<close>; \<open>no3 s\<close> says that \<open>s\<close> holds
  no three newlines in a row.
\<close>

definition run :: "jstring \<Rightarrow> nat" where
  "run s = length (takeWhile (\<lambda>c. c = nl) s)"

fun no3 :: "jstring \<Rightarrow> bool" where
  "no3 [] = True"
| "no3 (c # cs) = (run (c # cs) < 3 \<and> no3 cs)"

lemma run_simps [simp]:
  "run [] = 0"
  "run (c # cs) = (if c = nl then Suc (run cs) else 0)"
  by (simp_all add: run_def)

lemma match_newlines_iff:
  "match_newlines s = (if 3 \<le> run s then Some ([nl, nl], dropWhile (\<lambda>c. c = nl) s) else None)"
  by (simp add: match_newlines_def run_def)

lemma run_dropWhile [simp]: "run (dropWhile (\<lambda>c. c = nl) s) = 0"
  by (induction s) simp_all

lemma replace_newlines_short:
  "run (c # cs) < 3 \<Longrightarrow>
   replace_all match_newlines (c # cs) = c # replace_all match_newlines cs"
  by (simp add: match_newlines_iff)

lemma replace_newlines_long:
  "3 \<le> run (c # cs) \<Longrightarrow>
   replace_all match_newlines (c # cs)
     = [nl, nl] @ replace_all match_newlines (dropWhile (\<lambda>c. c = nl) (c # cs))"
proof -
  assume a: "3 \<le> run (c # cs)"
  then have c: "c = nl" by (simp split: if_splits)
  have "length (dropWhile (\<lambda>c. c = nl) cs) \<le> length cs"
    by (rule length_dropWhile_le)
  then show ?thesis
    using a c by (simp add: match_newlines_iff)
qed

lemma run_replace_zero: "run s = 0 \<Longrightarrow> run (replace_all match_newlines s) = 0"
  by (cases s) (simp_all add: match_newlines_iff split: if_splits)

lemma run_replace_short: "run s < 3 \<Longrightarrow> run (replace_all match_newlines s) = run s"
proof (induction s)
  case Nil
  then show ?case by simp
next
  case (Cons c cs)
  have step: "replace_all match_newlines (c # cs) = c # replace_all match_newlines cs"
    using Cons.prems by (rule replace_newlines_short)
  show ?case
  proof (cases "c = nl")
    case True
    then have "run cs < 3" using Cons.prems by simp
    then show ?thesis
      using Cons.IH True unfolding step by simp
  next
    case False
    then show ?thesis unfolding step by simp
  qed
qed

lemma run_replace_le: "run (replace_all match_newlines s) \<le> 2"
proof (cases "run s < 3")
  case True
  then show ?thesis by (simp add: run_replace_short)
next
  case False
  then obtain c cs where s: "s = c # cs" by (cases s) auto
  have "run (replace_all match_newlines (dropWhile (\<lambda>c. c = nl) (c # cs))) = 0"
    by (rule run_replace_zero) (rule run_dropWhile)
  then show ?thesis
    using False s replace_newlines_long [of c cs] by simp
qed

lemma no3_replace: "no3 (replace_all match_newlines s)"
proof (induction s rule: length_induct)
  case (1 s)
  show ?case
  proof (cases s)
    case Nil
    then show ?thesis by simp
  next
    case (Cons c cs)
    show ?thesis
    proof (cases "run (c # cs) < 3")
      case True
      have step: "replace_all match_newlines (c # cs) = c # replace_all match_newlines cs"
        using True by (rule replace_newlines_short)
      have "run (c # replace_all match_newlines cs) < 3"
        using run_replace_le [of "c # cs"] unfolding step by simp
      moreover have "no3 (replace_all match_newlines cs)"
        using 1 Cons by simp
      ultimately show ?thesis
        unfolding Cons step by (simp del: run_simps)
    next
      case False
      let ?rest = "dropWhile (\<lambda>c. c = nl) (c # cs)"
      have len: "length ?rest < length s"
        using False Cons length_dropWhile_le [of "\<lambda>c. c = nl" cs] by (simp split: if_splits)
      have r: "no3 (replace_all match_newlines ?rest)"
        using 1 len by blast
      have z: "run (replace_all match_newlines ?rest) = 0"
        by (rule run_replace_zero) (rule run_dropWhile)
      have "replace_all match_newlines s = nl # nl # replace_all match_newlines ?rest"
        using False Cons replace_newlines_long [of c cs] by simp
      then show ?thesis
        using r z by simp
    qed
  qed
qed

lemma no3_fixed: "no3 s \<Longrightarrow> replace_all match_newlines s = s"
  by (induction s) (simp_all add: match_newlines_iff del: run_simps)


lemma trim_as_take:
  "trim s = take (length (dropWhile is_ws s) - length (takeWhile is_ws (rev (dropWhile is_ws s))))
              (dropWhile is_ws s)"
  by (simp add: trim_def dropWhile_eq_drop [of is_ws "rev (dropWhile is_ws s)"] rev_drop)

lemma dropWhile_take_head:
  "ys = take n xs \<Longrightarrow> xs = dropWhile P zs \<Longrightarrow> dropWhile P ys = ys"
proof (cases ys)
  case Nil
  then show ?thesis by simp
next
  case (Cons y ys')
  assume a: "ys = take n xs" "xs = dropWhile P zs"
  obtain x xs' where xs: "xs = x # xs'"
    using a(1) Cons by (cases xs) auto
  have "y = x"
    using a(1) Cons xs by (cases n) auto
  moreover have "\<not> P (hd (dropWhile P zs))"
    by (rule hd_dropWhile) (metis a(2) xs list.distinct(1))
  ultimately have "\<not> P y"
    using a(2) xs by (metis list.sel(1))
  then show ?thesis
    using Cons by simp
qed

lemma trim_idem: "trim (trim s) = trim s"
proof -
  have 1: "dropWhile is_ws (trim s) = trim s"
    by (rule dropWhile_take_head [OF trim_as_take refl])
  have 2: "dropWhile is_ws (rev (trim s)) = rev (trim s)"
    by (simp add: trim_def)
  show ?thesis
    by (subst (1) trim_def) (simp add: 1 2)
qed

lemma run_take_le: "run (take n s) \<le> run s"
  by (induction s arbitrary: n) (auto simp: take_Cons split: nat.splits)

lemma no3_take: "no3 s \<Longrightarrow> no3 (take n s)"
proof (induction s arbitrary: n)
  case Nil
  then show ?case by simp
next
  case (Cons c cs)
  show ?case
  proof (cases n)
    case 0
    then show ?thesis by simp
  next
    case (Suc k)
    have "run (take n (c # cs)) < 3"
      using run_take_le [of n "c # cs"] Cons.prems by (simp del: run_simps)
    then show ?thesis
      using Suc Cons by (simp del: run_simps)
  qed
qed

lemma no3_dropWhile: "no3 s \<Longrightarrow> no3 (dropWhile P s)"
  by (induction s) (simp_all del: run_simps)

lemma no3_trim: "no3 s \<Longrightarrow> no3 (trim s)"
  by (subst trim_as_take) (intro no3_take no3_dropWhile)

lemma set_trim: "set (trim s) \<subseteq> set s"
proof -
  have "set (trim s) \<subseteq> set (dropWhile is_ws s)"
    by (subst trim_as_take) (rule set_take_subset)
  then show ?thesis
    using set_dropWhileD by fastforce
qed

lemma set_replace_newlines: "set (replace_all match_newlines s) \<subseteq> set s"
proof (induction s rule: length_induct)
  case (1 s)
  show ?case
  proof (cases s)
    case Nil
    then show ?thesis by simp
  next
    case (Cons c cs)
    show ?thesis
    proof (cases "run (c # cs) < 3")
      case True
      then show ?thesis
        using 1 Cons by (auto simp: replace_newlines_short simp del: replace_all.simps run_simps)
    next
      case False
      let ?rest = "dropWhile (\<lambda>c. c = nl) (c # cs)"
      have c: "c = nl" using False by (simp split: if_splits)
      have len: "length ?rest < length s"
        using c Cons length_dropWhile_le [of "\<lambda>c. c = nl" cs] by simp
      have "set (replace_all match_newlines ?rest) \<subseteq> set ?rest"
        using 1 len by blast
      moreover have "set ?rest \<subseteq> set s"
        unfolding Cons using set_dropWhileD by fastforce
      moreover have "replace_all match_newlines s = nl # nl # replace_all match_newlines ?rest"
        using False Cons replace_newlines_long [of c cs] by simp
      ultimately show ?thesis
        using c Cons by auto
    qed
  qed
qed

lemma stripHtml_fixed:
  assumes "lt \<notin> set (stripHtml s)" and "amp \<notin> set (stripHtml s)"
  shows "stripHtml (stripHtml s) = stripHtml s"
proof (cases "s = []")
  case True
  then show ?thesis by (simp add: stripHtml_def)
next
  case False
  then obtain u where u: "stripHtml s = trim (replace_all match_newlines u)"
    by (simp add: stripHtml_def Let_def)
  have "no3 (stripHtml s)"
    unfolding u by (intro no3_trim no3_replace)
  then have "replace_all match_newlines (stripHtml s) = stripHtml s"
    by (rule no3_fixed)
  moreover have "trim (stripHtml s) = stripHtml s"
    unfolding u by (rule trim_idem)
  ultimately show ?thesis
    using stripHtml_plain [OF assms] by simp
qed

lemma stripHtml_plain_output:
  assumes "lt \<notin> set s" and "amp \<notin> set s"
  shows "lt \<notin> set (stripHtml s) \<and> amp \<notin> set (stripHtml s)"
  using assms set_trim [of "replace_all match_newlines s"] set_replace_newlines [of s]
  by (auto simp: stripHtml_plain [OF assms])


text \<open>Every match consumes at least one code unit: the bound in \<open>replace_all\<close> never acts.\<close>

lemma strip_prefix_ci_length:
  "strip_prefix_ci p s = Some r \<Longrightarrow> length s = length p + length r"
  by (induction p s rule: strip_prefix_ci.induct) (auto split: if_splits)

lemma strip_prefix_length:
  "strip_prefix p s = Some r \<Longrightarrow> length s = length p + length r"
  by (induction p s rule: strip_prefix.induct) (auto split: if_splits)

lemma dropWhile_Cons_length: "dropWhile P xs = y # ys \<Longrightarrow> length ys < length xs"
  using length_dropWhile_le [of P xs] by simp

lemma img_tail_length: "img_tail t = Some (src, rest) \<Longrightarrow> length rest < length t"
  by (auto simp: img_tail_def split: option.splits list.splits
      dest!: strip_prefix_ci_length dropWhile_Cons_length)

lemma img_attrs_length: "img_attrs r = Some (src, rest) \<Longrightarrow> length rest < length r"
  by (induction r) (auto split: if_splits option.splits dest: img_tail_length)

lemma match_consumes:
  assumes "m \<in> {match_img, match_br, match_p_close, match_tag, match_newlines}
           \<or> (\<exists>p ps rep. m = match_lit (p # ps) rep)"
    and "m (c # cs) = Some (rep', rest)"
  shows "length rest \<le> length cs"
proof -
  have "length rest \<le> length cs" if h: "match_img (c # cs) = Some (rep', rest)"
  proof -
    obtain r src where r: "strip_prefix_ci (asc ''<img'') (c # cs) = Some r"
      and a: "img_attrs r = Some (src, rest)"
      using h by (auto simp: match_img_def split: option.splits prod.splits)
    have "length (c # cs) = length (asc ''<img'') + length r"
      using r by (rule strip_prefix_ci_length)
    then show ?thesis
      using img_attrs_length [OF a] by (simp add: asc_def)
  qed
  moreover have "length rest \<le> length cs" if "match_br (c # cs) = Some (rep', rest)"
    using that
    by (auto simp: match_br_def asc_def split: option.splits if_splits list.splits
        dest!: dropWhile_Cons_length strip_prefix_ci_length)
  moreover have "length rest \<le> length cs" if "match_p_close (c # cs) = Some (rep', rest)"
    using that
    by (auto simp: match_p_close_def asc_def split: option.splits if_splits
        dest!: strip_prefix_ci_length)
  moreover have "length rest \<le> length cs" if "match_tag (c # cs) = Some (rep', rest)"
    using that
    by (auto simp: match_tag_def split: option.splits if_splits list.splits
        dest!: dropWhile_Cons_length)
  moreover have "length rest \<le> length cs" if "match_newlines (c # cs) = Some (rep', rest)"
    using that length_dropWhile_le [of "\<lambda>c. c = nl" cs]
    by (auto simp: match_newlines_def split: if_splits)
  moreover have "length rest \<le> length cs" if "match_lit (p # ps) rep (c # cs) = Some (rep', rest)"
    for p ps rep
    using that by (auto simp: match_lit_def split: if_splits dest!: strip_prefix_length)
  ultimately show ?thesis
    using assms by blast
qed

text \<open>
  C3, as stated, fails. The entities are decoded one after the other, \<open>&amp;\<close> last, so the
  output can hold an entity or a tag again: \<open>&amp;lt;\<close> becomes \<open>&lt;\<close>, and a second pass
  turns that into \<open><\<close>.
\<close>

theorem stripHtml_not_idempotent:
  "stripHtml (stripHtml (asc ''&amp;lt;'')) \<noteq> stripHtml (asc ''&amp;lt;'')"
  by code_simp

text \<open>
  C3, amended. The sanitizer is idempotent on plain text: whenever the sanitized string
  holds neither \<open><\<close> nor \<open>&\<close> (as it does whenever the input holds neither), sanitizing it
  again returns it unchanged.
\<close>

theorem stripHtml_idempotent_plain:
  "(lt \<notin> set (stripHtml s) \<and> amp \<notin> set (stripHtml s) \<longrightarrow>
      stripHtml (stripHtml s) = stripHtml s)
   \<and> (lt \<notin> set s \<and> amp \<notin> set s \<longrightarrow> stripHtml (stripHtml s) = stripHtml s)"
  using stripHtml_fixed stripHtml_plain_output by blast

theorem stripHtml_idempotent_plain_witness:
  "stripHtml (asc ''<p>Hello</p><br/>'') = asc ''Hello''
   \<and> stripHtml (stripHtml (asc ''<p>Hello</p><br/>'')) = stripHtml (asc ''<p>Hello</p><br/>'')
   \<and> stripHtml (stripHtml (asc '' a'' @ [nl, nl, nl, nl] @ asc ''b ''))
       = stripHtml (asc '' a'' @ [nl, nl, nl, nl] @ asc ''b '')"
proof -
  have e: "stripHtml (asc ''<p>Hello</p><br/>'') = asc ''Hello''"
    by code_simp
  have 1: "lt \<notin> set (stripHtml (asc ''<p>Hello</p><br/>''))"
    "amp \<notin> set (stripHtml (asc ''<p>Hello</p><br/>''))"
    unfolding e by (simp_all add: asc_def lt_def amp_def)
  have 2: "lt \<notin> set (asc '' a'' @ [nl, nl, nl, nl] @ asc ''b '')"
    "amp \<notin> set (asc '' a'' @ [nl, nl, nl, nl] @ asc ''b '')"
    by (simp_all add: asc_def lt_def amp_def nl_def)
  show ?thesis
    using stripHtml_idempotent_plain [of "asc ''<p>Hello</p><br/>''"]
      stripHtml_idempotent_plain [of "asc '' a'' @ [nl, nl, nl, nl] @ asc ''b ''"] 1 2 e
    by simp
qed

section \<open>Properties of the field formatter\<close>

text \<open>
  Two hosts for the witnesses. \<open>zh_CN offset\<close> is the host's formatting at a fixed offset
  from UTC, in minutes: the local minute of the instant in the Gregorian calendar, written
  as the \<open>zh-CN\<close> locale writes year, month, day, hour and minute (\<open>2023/11/15 06:13\<close>, for
  the years from 1 on), and \<open>Invalid Date\<close> outside the range of \<open>Date\<close>. \<open>civil\<close> turns a day
  number, counted from 1970-01-01, into year, month and day. \<open>sample_host\<close> runs at UTC+8
  and \<open>utc_host\<close> at UTC; both answer \<open>Invalid Date\<close> to a timestamp that is not a number,
  which no witness passes, and leave the renderer room for 2400 nested calls.
\<close>

definition two_digits :: "int \<Rightarrow> jstring" where
  "two_digits n = (if n < 10 then asc ''0'' else []) @ show_int n"

definition civil :: "int \<Rightarrow> int \<times> int \<times> int" where
  "civil days =
     (let z = days + 719468;
          era = z div 146097;
          doe = z mod 146097;
          yoe = (doe - doe div 1460 + doe div 36524 - doe div 146096) div 365;
          doy = doe - (365 * yoe + yoe div 4 - yoe div 100);
          mp = (5 * doy + 2) div 153;
          m = (if mp < 10 then mp + 3 else mp - 9)
      in (yoe + era * 400 + (if m \<le> 2 then 1 else 0), m, doy - (153 * mp + 2) div 5 + 1))"

definition zh_CN :: "int \<Rightarrow> int \<Rightarrow> jstring" where
  "zh_CN offset ms =
     (if ms < - 8640000000000000 \<or> 8640000000000000 < ms then asc ''Invalid Date''
      else
        (let minutes = ms div 60000 + offset;
             (y, m, d) = civil (minutes div 1440)
         in show_int y @ asc ''/'' @ two_digits m @ asc ''/'' @ two_digits d @ asc '' ''
            @ two_digits (minutes mod 1440 div 60) @ asc '':'' @ two_digits (minutes mod 60)))"

definition sample_host :: host where
  "sample_host =
     \<lparr>toLocaleString = zh_CN 480, formatOther = (\<lambda>v. Inr (asc ''Invalid Date'')), stack = 2400\<rparr>"

definition utc_host :: host where
  "utc_host =
     \<lparr>toLocaleString = zh_CN 0, formatOther = (\<lambda>v. Inr (asc ''Invalid Date'')), stack = 2400\<rparr>"

lemma zh_CN_samples:
  "zh_CN 480 1700000000000 = asc ''2023/11/15 06:13''"
  "zh_CN 0 1700000000000 = asc ''2023/11/14 22:13''"
  "zh_CN 480 1000000000001 = asc ''2001/09/09 09:46''"
  "zh_CN 480 1000000000000000 = asc ''33658/09/27 09:46''"
  by (unfold zh_CN_def civil_def Let_def)
    (simp_all add: two_digits_def show_int_def digits.simps asc_def)

text \<open>
  C7. \<open>formatTimestamp\<close> takes a number above \<open>10^12\<close> for milliseconds and hands it to the
  host's formatter as it is; any other number that is not zero it takes for seconds and
  hands over a thousandfold. So \<open>1700000000\<close> and \<open>1700000000000\<close> reach the formatter as the
  same instant and give the same string, as do \<open>n\<close> seconds and \<open>1000 n\<close> milliseconds
  whenever the second value lies above the threshold and the first does not. A falsy
  timestamp gives the empty string.
\<close>

theorem formatTimestamp_epochs:
  "(1000000000000 < n \<longrightarrow> formatTimestamp h (JNum n) = Inr (toLocaleString h n))
   \<and> (n \<noteq> 0 \<and> n \<le> 1000000000000 \<longrightarrow>
        formatTimestamp h (JNum n) = Inr (toLocaleString h (n * 1000)))
   \<and> formatTimestamp h (JNum 1700000000) = formatTimestamp h (JNum 1700000000000)
   \<and> formatTimestamp h (JNum 1700000000) = Inr (toLocaleString h 1700000000000)
   \<and> (0 < n \<and> n \<le> 1000000000000 \<and> 1000000000000 < n * 1000 \<longrightarrow>
        formatTimestamp h (JNum n) = formatTimestamp h (JNum (n * 1000)))
   \<and> (\<not> truthy ts \<longrightarrow> formatTimestamp h ts = Inr [])"
  by (simp add: formatTimestamp_def)

theorem formatTimestamp_epochs_witness:
  "formatTimestamp sample_host (JNum 1700000000) = Inr (asc ''2023/11/15 06:13'')
   \<and> formatTimestamp sample_host (JNum 1700000000000) = Inr (asc ''2023/11/15 06:13'')
   \<and> formatTimestamp utc_host (JNum 1700000000) = Inr (asc ''2023/11/14 22:13'')
   \<and> formatTimestamp sample_host (JNum 1000000000001) = Inr (asc ''2001/09/09 09:46'')
   \<and> formatTimestamp sample_host (JNum 1000000000000) = Inr (asc ''33658/09/27 09:46'')
   \<and> formatTimestamp sample_host JUndef = Inr []
   \<and> formatTimestamp sample_host (JNum 0) = Inr []"
proof -
  have 1: "formatTimestamp sample_host (JNum 1700000000) = Inr (asc ''2023/11/15 06:13'')"
    using formatTimestamp_epochs [of 1700000000 sample_host JUndef]
    by (simp add: sample_host_def zh_CN_samples)
  have 2: "formatTimestamp sample_host (JNum 1700000000000) = Inr (asc ''2023/11/15 06:13'')"
    using formatTimestamp_epochs [of 1700000000000 sample_host JUndef]
    by (simp add: sample_host_def zh_CN_samples)
  have 3: "formatTimestamp utc_host (JNum 1700000000) = Inr (asc ''2023/11/14 22:13'')"
    using formatTimestamp_epochs [of 1700000000 utc_host JUndef]
    by (simp add: utc_host_def zh_CN_samples)
  have 4: "formatTimestamp sample_host (JNum 1000000000001) = Inr (asc ''2001/09/09 09:46'')"
    using formatTimestamp_epochs [of 1000000000001 sample_host JUndef]
    by (simp add: sample_host_def zh_CN_samples)
  have 5: "formatTimestamp sample_host (JNum 1000000000000) = Inr (asc ''33658/09/27 09:46'')"
    using formatTimestamp_epochs [of 1000000000000 sample_host JUndef]
    by (simp add: sample_host_def zh_CN_samples)
  have 6: "formatTimestamp sample_host JUndef = Inr []"
    "formatTimestamp sample_host (JNum 0) = Inr []"
    using formatTimestamp_epochs [of 1 sample_host JUndef]
      formatTimestamp_epochs [of 1 sample_host "JNum 0"]
    by simp_all
  show ?thesis
    using 1 2 3 4 5 6 by blast
qed

definition priority_ids :: "jstring list" where
  "priority_ids =
     [asc ''5cb9466afda1ce4ca0090001'', asc ''5cb9466afda1ce4ca0090002'',
      asc ''5cb9466afda1ce4ca0090003'', asc ''5cb9466afda1ce4ca0090004'']"

lemma PRIORITY_MAP_keys: "PRIORITY_MAP = JObj kvs \<Longrightarrow> map fst kvs = priority_ids"
  by (auto simp: PRIORITY_MAP_def priority_ids_def)

lemma PRIORITY_MAP_miss:
  "k \<notin> set priority_ids \<Longrightarrow> field PRIORITY_MAP k = inherited k"
  by (simp add: PRIORITY_MAP_def priority_ids_def field_def)

lemma priority_string:
  "field item (asc ''priority'') = JStr k \<Longrightarrow> k \<noteq> [] \<Longrightarrow>
   priorityName item = Inr (or_js (field PRIORITY_MAP k) (JStr lbl_not_set))"
  by (simp add: priorityName_def index_js_def opt_field_def field_def or_js_def)

text \<open>
  C8. At a priority id that names a member of \<open>Object.prototype\<close> the code misses what the
  claim says and what its own fallback is written for. The table is a plain object
  literal, so \<open>PRIORITY_MAP["constructor"]\<close> is the inherited function \<open>Object\<close>, a truthy
  value: the chain \<open>PRIORITY_MAP[id] || id?.name || sentinel\<close> stops there, and the priority
  name, declared a string, is a function. The id is not in the table and has no embedded
  name, so the claim calls for the sentinel.
\<close>

theorem priority_inherited_counterexample:
  "priorityName (JObj [(asc ''priority'', JStr (asc ''constructor''))]) = Inr (JNative (asc ''Object''))
   \<and> asc ''constructor'' \<notin> set priority_ids
   \<and> opt_field (JStr (asc ''constructor'')) (asc ''name'') = JUndef"
  by (simp add: priorityName_def index_js_def field_def PRIORITY_MAP_def inherited_def or_js_def
      priority_ids_def opt_field_def asc_def)

text \<open>
  Everywhere else the resolution is what the claim says: the id \<open>5cb9466afda1ce4ca0090001\<close>
  gives the urgent label, and an absent priority or a string id that is neither in the
  table nor such a name gives the sentinel.
\<close>

lemma priority_resolution:
  "(field item (asc ''priority'') = JStr (asc ''5cb9466afda1ce4ca0090001'') \<longrightarrow>
      priorityName item = Inr (JStr lbl_urgent))
   \<and> (field item (asc ''priority'') = JStr k \<and> k \<notin> set priority_ids \<and> inherited k = JUndef \<longrightarrow>
      priorityName item = Inr (JStr lbl_not_set))
   \<and> (\<not> truthy (field item (asc ''priority'')) \<longrightarrow> priorityName item = Inr (JStr lbl_not_set))"
proof -
  have 1: "priorityName item = Inr (JStr lbl_urgent)"
    if "field item (asc ''priority'') = JStr (asc ''5cb9466afda1ce4ca0090001'')"
  proof -
    have "field PRIORITY_MAP (asc ''5cb9466afda1ce4ca0090001'') = JStr lbl_urgent"
      by (simp add: PRIORITY_MAP_def field_def)
    moreover have "asc ''5cb9466afda1ce4ca0090001'' \<noteq> []" "lbl_urgent \<noteq> []"
      by (simp_all add: asc_def lbl_urgent_def)
    ultimately show ?thesis
      using priority_string [OF that] by (simp add: or_js_def)
  qed
  have 2: "priorityName item = Inr (JStr lbl_not_set)"
    if "field item (asc ''priority'') = JStr k" "k \<notin> set priority_ids" "inherited k = JUndef"
  proof (cases "k = []")
    case True
    then show ?thesis using that(1) by (simp add: priorityName_def)
  next
    case False
    then show ?thesis
      using priority_string [OF that(1)] PRIORITY_MAP_miss [OF that(2)] that(3)
      by (simp add: or_js_def)
  qed
  have 3: "priorityName item = Inr (JStr lbl_not_set)" if "\<not> truthy (field item (asc ''priority''))"
    using that by (simp add: priorityName_def)
  show ?thesis using 1 2 3 by blast
qed

lemma priority_resolution_sample:
  "priorityName (JObj [(asc ''priority'', JStr (asc ''5cb9466afda1ce4ca0090001''))]) = Inr (JStr lbl_urgent)
   \<and> priorityName (JObj [(asc ''priority'', JStr (asc ''5cb9466afda1ce4ca00900ff''))]) = Inr (JStr lbl_not_set)
   \<and> priorityName (JObj [(asc ''title'', JStr (asc ''t''))]) = Inr (JStr lbl_not_set)"
proof -
  let ?a = "JObj [(asc ''priority'', JStr (asc ''5cb9466afda1ce4ca0090001''))]"
  let ?b = "JObj [(asc ''priority'', JStr (asc ''5cb9466afda1ce4ca00900ff''))]"
  let ?c = "JObj [(asc ''title'', JStr (asc ''t''))]"
  have a: "field ?a (asc ''priority'') = JStr (asc ''5cb9466afda1ce4ca0090001'')"
    by (simp add: field_def)
  have b: "field ?b (asc ''priority'') = JStr (asc ''5cb9466afda1ce4ca00900ff'')"
    "asc ''5cb9466afda1ce4ca00900ff'' \<notin> set priority_ids"
    "inherited (asc ''5cb9466afda1ce4ca00900ff'') = JUndef"
    by (simp_all add: field_def priority_ids_def inherited_def object_prototype_functions_def asc_def)
  have c: "\<not> truthy (field ?c (asc ''priority''))"
    by (simp add: field_def inherited_def object_prototype_functions_def asc_def)
  show ?thesis
    using priority_resolution [of ?a "[]"]
      priority_resolution [of ?b "asc ''5cb9466afda1ce4ca00900ff''"]
      priority_resolution [of ?c "[]"] a b c
    by simp
qed
















declare digits.simps [simp del]














































section \<open>Properties of the directive generator\<close>















lemma set_join: "set (join sep xs) \<subseteq> set sep \<union> \<Union> (set ` set xs)"
  by (induction sep xs rule: join.induct) auto

lemma join_member: "x \<in> set xs \<Longrightarrow> set x \<subseteq> set (join sep xs)"
  by (induction sep xs rule: join.induct) auto







text \<open>On a record whose values are strings nothing in the projector or the directives throws.\<close>

definition line_ok :: "error + jv \<Rightarrow> bool" where
  "line_ok l = (case l of Inr (JStr s) \<Rightarrow> True | _ \<Rightarrow> False)"


lemma line_ok_simps [simp]: "line_ok (Inr (JStr s))"
  by (simp add: line_ok_def)





















end
